theory Spec2Isabelle
  imports Complex_Main "HOL-Library.Word"
begin

unbundle bit_operations_syntax

section \<open>Python values, exceptions and object state\<close>

text \<open>
  The support module \<^verbatim>\<open>nunavut_support.py\<close> is modelled function by function.
  Python integers are \<^typ>\<open>int\<close>; an element of a \<^verbatim>\<open>numpy.uint8\<close> array is an
  \<^typ>\<open>8 word\<close>; a one-dimensional \<^verbatim>\<open>uint8\<close> array is a list of them.

  A method mutates its object and may raise. It is modelled as a function from the object
  state to a pair: the outcome (\<open>Inl\<close> the exception, \<open>Inr\<close> the returned value) and the
  object state left behind. The state is returned in the exceptional case too, because a
  Python object keeps every mutation made before the exception was raised.
\<close>

type_synonym byte = "8 word"

datatype py_error =
    ValueError
  | FormatError
  | AssertionError
  | IndexError
  | OverflowError
  | TypeError
  | OtherError string

type_synonym ('s, 'a) py = "'s \<Rightarrow> (py_error + 'a) \<times> 's"

definition py_return :: "'a \<Rightarrow> ('s, 'a) py" where
  "py_return v = (\<lambda>s. (Inr v, s))"

definition py_raise :: "py_error \<Rightarrow> ('s, 'a) py" where
  "py_raise e = (\<lambda>s. (Inl e, s))"

definition py_bind :: "('s, 'a) py \<Rightarrow> ('a \<Rightarrow> ('s, 'b) py) \<Rightarrow> ('s, 'b) py" where
  "py_bind m f = (\<lambda>s. case m s of (Inl e, s') \<Rightarrow> (Inl e, s') | (Inr v, s') \<Rightarrow> f v s')"

definition py_then :: "('s, 'a) py \<Rightarrow> ('s, 'b) py \<Rightarrow> ('s, 'b) py" where
  "py_then m n = py_bind m (\<lambda>_. n)"

text \<open>\<^verbatim>\<open>assert c\<close>: raises \<^verbatim>\<open>AssertionError\<close> when the condition is false.\<close>

definition py_assert :: "('s \<Rightarrow> bool) \<Rightarrow> ('s, unit) py" where
  "py_assert c = (\<lambda>s. if c s then (Inr (), s) else (Inl AssertionError, s))"

text \<open>A computation that reads the state but does not change it.\<close>

definition py_pure :: "('s \<Rightarrow> py_error + 'a) \<Rightarrow> ('s, 'a) py" where
  "py_pure f = (\<lambda>s. (f s, s))"

subsection \<open>Indexing and slicing of one-dimensional arrays\<close>

text \<open>
  \<^verbatim>\<open>x[i]\<close>: a negative index counts from the end, and the function returns the position
  addressed. numpy converts the index to its signed 64-bit index type: an index from
  \<open>2^63\<close> up to \<open>2^64 - 1\<close> raises \<^verbatim>\<open>OverflowError\<close>, every other index outside
  \<open>[-n, n)\<close> raises \<^verbatim>\<open>IndexError\<close>. The length of an array fits the index type, so
  an index that overflows is never within the array; a list longer than any array is
  indexed as a Python sequence is.
\<close>

definition NPY_MAX_INTP :: int where
  "NPY_MAX_INTP = 2 ^ 63 - 1"

definition np_index :: "'a list \<Rightarrow> int \<Rightarrow> py_error + nat" where
  "np_index xs i =
     (let n = int (length xs)
      in if 0 \<le> i \<and> i < n then Inr (nat i)
         else if - n \<le> i \<and> i < 0 then Inr (nat (n + i))
         else if n \<le> NPY_MAX_INTP \<and> NPY_MAX_INTP < i \<and> i < 2 ^ 64 then Inl OverflowError
         else Inl IndexError)"

text \<open>
  The bounds of the slice \<^verbatim>\<open>x[a:b]\<close> on an array of length \<open>n\<close>: a negative bound counts
  from the end, and both are clipped to \<open>[0, n]\<close>. Slicing never raises.
\<close>

definition py_clip :: "nat \<Rightarrow> int \<Rightarrow> nat" where
  "py_clip n a = (if a < 0 then nat (int n + a) else min (nat a) n)"

definition py_slice :: "'a list \<Rightarrow> int \<Rightarrow> int \<Rightarrow> 'a list" where
  "py_slice xs a b =
     (let lo = py_clip (length xs) a; hi = py_clip (length xs) b
      in take (hi - lo) (drop lo xs))"

text \<open>\<^verbatim>\<open>x[a:]\<close> and \<^verbatim>\<open>x[:b]\<close>.\<close>

definition py_slice_from :: "'a list \<Rightarrow> int \<Rightarrow> 'a list" where
  "py_slice_from xs a = drop (py_clip (length xs) a) xs"

definition py_slice_to :: "'a list \<Rightarrow> int \<Rightarrow> 'a list" where
  "py_slice_to xs b = take (py_clip (length xs) b) xs"

text \<open>
  \<^verbatim>\<open>x[a:b] = v\<close> on a numpy array: the value is broadcast to the shape of the slice, so
  its length must be the length of the slice, or one; otherwise numpy raises
  \<^verbatim>\<open>ValueError\<close> (could not broadcast).
\<close>

definition np_set_slice :: "'a list \<Rightarrow> int \<Rightarrow> int \<Rightarrow> 'a list \<Rightarrow> py_error + 'a list" where
  "np_set_slice xs a b v =
     (let lo = py_clip (length xs) a; hi = py_clip (length xs) b; k = hi - lo
      in if length v = k then Inr (take lo xs @ v @ drop (lo + k) xs)
         else if length v = 1 then Inr (take lo xs @ replicate k (hd v) @ drop (lo + k) xs)
         else Inl ValueError)"

section \<open>Serializer\<close>

record Serializer =
  ser_buf :: "byte list"
  ser_bit_offset :: int

text \<open>
  \<^verbatim>\<open>Serializer.new\<close>: \<^verbatim>\<open>numpy.zeros\<close> refuses a negative length with \<^verbatim>\<open>ValueError\<close>.
\<close>

definition EXTRA_BUFFER_CAPACITY_BYTES :: int where
  "EXTRA_BUFFER_CAPACITY_BYTES = 1"

definition Serializer_new :: "int \<Rightarrow> py_error + Serializer" where
  "Serializer_new buffer_size_in_bytes =
     (let n = buffer_size_in_bytes + EXTRA_BUFFER_CAPACITY_BYTES
      in if n < 0 then Inl ValueError
         else Inr \<lparr>ser_buf = replicate (nat n) 0, ser_bit_offset = 0\<rparr>)"

definition current_bit_length :: "Serializer \<Rightarrow> int" where
  "current_bit_length s = ser_bit_offset s"

definition buffer :: "Serializer \<Rightarrow> byte list" where
  "buffer s = py_slice_to (ser_buf s) ((ser_bit_offset s + 7) div 8)"

definition ser_byte_offset :: "Serializer \<Rightarrow> int" where
  "ser_byte_offset s = ser_bit_offset s div 8"

text \<open>\<^verbatim>\<open>self._bit_offset += n\<close>.\<close>

definition ser_advance :: "int \<Rightarrow> (Serializer, unit) py" where
  "ser_advance n = (\<lambda>s. (Inr (), s\<lparr>ser_bit_offset := ser_bit_offset s + n\<rparr>))"

definition Serializer_skip_bits :: "int \<Rightarrow> (Serializer, unit) py" where
  "Serializer_skip_bits bit_length = ser_advance bit_length"

text \<open>
  \<^verbatim>\<open>fork_bytes\<close>. The forked serializer's buffer is a numpy view of the parent's buffer:
  the model gives the contents of that view when the fork is made. Later writes through the
  fork are not carried over to the parent's buffer here, and no statement below is about
  them.
\<close>

definition Serializer_fork_bytes :: "int \<Rightarrow> (Serializer, Serializer) py" where
  "Serializer_fork_bytes forked_buffer_size_in_bytes =
     (\<lambda>s. if ser_bit_offset s mod 8 \<noteq> 0 then (Inl ValueError, s)
          else let forked_buffer = py_slice_from (ser_buf s) (ser_bit_offset s div 8);
                   size = forked_buffer_size_in_bytes + EXTRA_BUFFER_CAPACITY_BYTES
               in if int (length forked_buffer) < size then (Inl ValueError, s)
                  else let forked_buffer' = py_slice_to forked_buffer size
                       in if int (length forked_buffer') \<noteq> size then (Inl AssertionError, s)
                          else (Inr \<lparr>ser_buf = forked_buffer', ser_bit_offset = 0\<rparr>, s))"

text \<open>\<^verbatim>\<open>self._buf[i]\<close> read, \<^verbatim>\<open>self._buf[i] = v\<close> and \<^verbatim>\<open>self._buf[a:b] = v\<close>.\<close>

definition ser_load :: "int \<Rightarrow> (Serializer, byte) py" where
  "ser_load i =
     (\<lambda>s. case np_index (ser_buf s) i of
             Inl e \<Rightarrow> (Inl e, s)
           | Inr j \<Rightarrow> (Inr (ser_buf s ! j), s))"

definition ser_store :: "int \<Rightarrow> byte \<Rightarrow> (Serializer, unit) py" where
  "ser_store i v =
     (\<lambda>s. case np_index (ser_buf s) i of
             Inl e \<Rightarrow> (Inl e, s)
           | Inr j \<Rightarrow> (Inr (), s\<lparr>ser_buf := (ser_buf s)[j := v]\<rparr>))"

definition ser_store_slice :: "int \<Rightarrow> int \<Rightarrow> byte list \<Rightarrow> (Serializer, unit) py" where
  "ser_store_slice a b v =
     (\<lambda>s. case np_set_slice (ser_buf s) a b v of
             Inl e \<Rightarrow> (Inl e, s)
           | Inr xs \<Rightarrow> (Inr (), s\<lparr>ser_buf := xs\<rparr>))"

definition ser_aligned :: "Serializer \<Rightarrow> bool" where
  "ser_aligned s = (ser_bit_offset s mod 8 = 0)"

definition ensure_not_negative :: "int \<Rightarrow> ('s, unit) py" where
  "ensure_not_negative x = (if x < 0 then py_raise ValueError else py_return ())"

subsection \<open>Aligned writes\<close>

definition add_aligned_bytes :: "byte list \<Rightarrow> (Serializer, unit) py" where
  "add_aligned_bytes x =
     py_then (py_assert ser_aligned)
       (py_then (\<lambda>s. ser_store_slice (ser_byte_offset s) (ser_byte_offset s + int (length x)) x s)
          (ser_advance (int (length x) * 8)))"

text \<open>
  \<^verbatim>\<open>self._buf[self._byte_offset] = x\<close> addresses the element and then converts the Python
  integer to \<^verbatim>\<open>uint8\<close>: numpy raises \<^verbatim>\<open>OverflowError\<close> for an integer above 255 and
  stores nothing (before version 2 it kept the low eight bits, with a deprecation
  warning). A negative integer does not get here.
\<close>

definition ser_store_int :: "int \<Rightarrow> int \<Rightarrow> (Serializer, unit) py" where
  "ser_store_int i x =
     (\<lambda>s. case np_index (ser_buf s) i of
             Inl e \<Rightarrow> (Inl e, s)
           | Inr j \<Rightarrow> if x < 0 \<or> 255 < x then (Inl OverflowError, s)
                      else (Inr (), s\<lparr>ser_buf := (ser_buf s)[j := word_of_int x]\<rparr>))"

definition add_aligned_u8 :: "int \<Rightarrow> (Serializer, unit) py" where
  "add_aligned_u8 x =
     py_then (py_assert ser_aligned)
       (py_then (ensure_not_negative x)
          (py_then (\<lambda>s. ser_store_int (ser_byte_offset s) x s)
             (ser_advance 8)))"

definition add_aligned_u16 :: "int \<Rightarrow> (Serializer, unit) py" where
  "add_aligned_u16 x =
     py_then (ensure_not_negative x)
       (py_then (add_aligned_u8 (x AND 0xFF))
          (add_aligned_u8 (drop_bit 8 x AND 0xFF)))"

definition add_aligned_u32 :: "int \<Rightarrow> (Serializer, unit) py" where
  "add_aligned_u32 x = py_then (add_aligned_u16 x) (add_aligned_u16 (drop_bit 16 x))"

definition add_aligned_u64 :: "int \<Rightarrow> (Serializer, unit) py" where
  "add_aligned_u64 x = py_then (add_aligned_u32 x) (add_aligned_u32 (drop_bit 32 x))"

definition add_aligned_i8 :: "int \<Rightarrow> (Serializer, unit) py" where
  "add_aligned_i8 x = add_aligned_u8 (if x < 0 then 256 + x else x)"

definition add_aligned_i16 :: "int \<Rightarrow> (Serializer, unit) py" where
  "add_aligned_i16 x = add_aligned_u16 (if x < 0 then 65536 + x else x)"

definition add_aligned_i32 :: "int \<Rightarrow> (Serializer, unit) py" where
  "add_aligned_i32 x = add_aligned_u32 (if x < 0 then 2 ^ 32 + x else x)"

definition add_aligned_i64 :: "int \<Rightarrow> (Serializer, unit) py" where
  "add_aligned_i64 x = add_aligned_u64 (if x < 0 then 2 ^ 64 + x else x)"

text \<open>
  \<^verbatim>\<open>_unsigned_to_bytes\<close>: the loop stores the low byte and shifts the value right by
  eight, \<open>num_bytes\<close> times.
\<close>

primrec unsigned_to_bytes_loop :: "nat \<Rightarrow> int \<Rightarrow> byte list" where
  "unsigned_to_bytes_loop 0 v = []"
| "unsigned_to_bytes_loop (Suc n) v = word_of_int (v AND 0xFF) # unsigned_to_bytes_loop n (drop_bit 8 v)"

definition unsigned_to_bytes :: "int \<Rightarrow> int \<Rightarrow> py_error + byte list" where
  "unsigned_to_bytes v bit_length =
     (if \<not> bit_length \<ge> 1 then Inl AssertionError
      else if \<not> v \<ge> 0 then Inl AssertionError
      else let v' = v AND (2 ^ nat bit_length - 1);
               num_bytes = (bit_length + 7) div 8
           in Inr (unsigned_to_bytes_loop (nat num_bytes) v'))"

definition add_aligned_unsigned :: "int \<Rightarrow> int \<Rightarrow> (Serializer, unit) py" where
  "add_aligned_unsigned v bit_length =
     py_then (py_assert ser_aligned)
       (py_then (ensure_not_negative v)
          (py_bind (py_pure (\<lambda>_. unsigned_to_bytes v bit_length))
             (\<lambda>bs. py_then
                (\<lambda>s. ser_store_slice (ser_byte_offset s) (ser_byte_offset s + int (length bs)) bs s)
                (ser_advance bit_length))))"

definition add_aligned_signed :: "int \<Rightarrow> int \<Rightarrow> (Serializer, unit) py" where
  "add_aligned_signed v bit_length =
     py_then (py_assert (\<lambda>_. bit_length \<ge> 2))
       (add_aligned_unsigned (if v < 0 then 2 ^ nat bit_length + v else v) bit_length)"

subsection \<open>Unaligned writes\<close>

text \<open>
  \<^verbatim>\<open>add_unaligned_bytes\<close>: \<open>left\<close> and \<open>right\<close> are computed once, before the loop.
  \<^verbatim>\<open>(b << left) & 0xFF\<close> is the left shift within eight bits; \<^verbatim>\<open>b >> right\<close> with
  \<open>right = 8\<close> is zero.
\<close>

fun add_unaligned_bytes_loop :: "nat \<Rightarrow> nat \<Rightarrow> byte list \<Rightarrow> (Serializer, unit) py" where
  "add_unaligned_bytes_loop left right [] = py_return ()"
| "add_unaligned_bytes_loop left right (b # bs) =
     py_bind (\<lambda>s. ser_load (ser_byte_offset s) s)
       (\<lambda>old. py_then (\<lambda>s. ser_store (ser_byte_offset s) (old OR push_bit left b) s)
          (py_then (ser_advance 8)
             (py_then (\<lambda>s. ser_store (ser_byte_offset s) (drop_bit right b) s)
                (add_unaligned_bytes_loop left right bs))))"

definition add_unaligned_bytes :: "byte list \<Rightarrow> (Serializer, unit) py" where
  "add_unaligned_bytes v =
     (\<lambda>s. let left = nat (ser_bit_offset s mod 8); right = 8 - left
          in add_unaligned_bytes_loop left right v s)"

definition add_unaligned_unsigned :: "int \<Rightarrow> int \<Rightarrow> (Serializer, unit) py" where
  "add_unaligned_unsigned v bit_length =
     py_then (ensure_not_negative v)
       (py_bind (py_pure (\<lambda>_. unsigned_to_bytes v bit_length))
          (\<lambda>bs. let backtrack = int (length bs) * 8 - bit_length
                in py_then (py_assert (\<lambda>_. backtrack \<ge> 0))
                     (py_then (add_unaligned_bytes bs)
                        (ser_advance (- backtrack)))))"

definition add_unaligned_signed :: "int \<Rightarrow> int \<Rightarrow> (Serializer, unit) py" where
  "add_unaligned_signed v bit_length =
     py_then (py_assert (\<lambda>_. bit_length \<ge> 2))
       (add_unaligned_unsigned (if v < 0 then 2 ^ nat bit_length + v else v) bit_length)"

definition add_unaligned_bit :: "bool \<Rightarrow> (Serializer, unit) py" where
  "add_unaligned_bit x =
     py_bind (\<lambda>s. ser_load (ser_byte_offset s) s)
       (\<lambda>old. py_then
          (\<lambda>s. ser_store (ser_byte_offset s)
                  (old OR push_bit (nat (ser_bit_offset s mod 8)) (if x then 1 else 0)) s)
          (ser_advance 1))"

text \<open>
  \<^verbatim>\<open>numpy.packbits(x, bitorder="little")\<close>: eight booleans per byte, the first one in the
  least significant bit, the last byte padded with zeros.
\<close>

fun packbits_little :: "bool list \<Rightarrow> byte list" where
  "packbits_little [] = []"
| "packbits_little (x # xs) = horner_sum of_bool 2 (take 8 (x # xs)) # packbits_little (drop 7 xs)"

definition add_aligned_array_of_bits :: "bool list \<Rightarrow> (Serializer, unit) py" where
  "add_aligned_array_of_bits x =
     py_then (py_assert ser_aligned)
       (let packed = packbits_little x
        in py_then (py_assert (\<lambda>_. length packed * 8 \<ge> length x))
             (py_then
                (\<lambda>s. ser_store_slice (ser_byte_offset s) (ser_byte_offset s + int (length packed))
                        packed s)
                (ser_advance (int (length x)))))"

definition add_unaligned_array_of_bits :: "bool list \<Rightarrow> (Serializer, unit) py" where
  "add_unaligned_array_of_bits x =
     (let packed = packbits_little x;
          backtrack = int (length packed) * 8 - int (length x)
      in py_then (py_assert (\<lambda>_. backtrack \<ge> 0))
           (py_then (add_unaligned_bytes packed) (ser_advance (- backtrack))))"

subsection \<open>Floating-point writes\<close>

text \<open>
  A Python float is a finite double, an infinity or a NaN. \<^verbatim>\<open>struct.pack\<close> belongs to the
  standard library, not to this module: it is a parameter \<open>pack\<close> of the functions that
  call it, which returns the packed bytes or the exception raised.
\<close>

datatype pyfloat = PyFloat real | PyInf | PyNegInf | PyNaN

fun pyfloat_gt_zero :: "pyfloat \<Rightarrow> bool" where
  "pyfloat_gt_zero (PyFloat r) = (r > 0)"
| "pyfloat_gt_zero PyInf = True"
| "pyfloat_gt_zero PyNegInf = False"
| "pyfloat_gt_zero PyNaN = False"

type_synonym struct_pack = "string \<Rightarrow> pyfloat \<Rightarrow> py_error + byte list"

definition float_to_bytes :: "struct_pack \<Rightarrow> string \<Rightarrow> pyfloat \<Rightarrow> py_error + byte list" where
  "float_to_bytes pack format_char x =
     (let f = ''<'' @ format_char
      in case pack f x of
           Inl OverflowError \<Rightarrow> pack f (if pyfloat_gt_zero x then PyInf else PyNegInf)
         | r \<Rightarrow> r)"

definition add_aligned_f16 :: "struct_pack \<Rightarrow> pyfloat \<Rightarrow> (Serializer, unit) py" where
  "add_aligned_f16 pack x = py_bind (py_pure (\<lambda>_. float_to_bytes pack ''e'' x)) add_aligned_bytes"

definition add_aligned_f32 :: "struct_pack \<Rightarrow> pyfloat \<Rightarrow> (Serializer, unit) py" where
  "add_aligned_f32 pack x = py_bind (py_pure (\<lambda>_. float_to_bytes pack ''f'' x)) add_aligned_bytes"

definition add_aligned_f64 :: "struct_pack \<Rightarrow> pyfloat \<Rightarrow> (Serializer, unit) py" where
  "add_aligned_f64 pack x = py_bind (py_pure (\<lambda>_. float_to_bytes pack ''d'' x)) add_aligned_bytes"

definition add_unaligned_f16 :: "struct_pack \<Rightarrow> pyfloat \<Rightarrow> (Serializer, unit) py" where
  "add_unaligned_f16 pack x = py_bind (py_pure (\<lambda>_. float_to_bytes pack ''e'' x)) add_unaligned_bytes"

definition add_unaligned_f32 :: "struct_pack \<Rightarrow> pyfloat \<Rightarrow> (Serializer, unit) py" where
  "add_unaligned_f32 pack x = py_bind (py_pure (\<lambda>_. float_to_bytes pack ''f'' x)) add_unaligned_bytes"

definition add_unaligned_f64 :: "struct_pack \<Rightarrow> pyfloat \<Rightarrow> (Serializer, unit) py" where
  "add_unaligned_f64 pack x = py_bind (py_pure (\<lambda>_. float_to_bytes pack ''d'' x)) add_unaligned_bytes"

section \<open>ZeroExtendingBuffer\<close>

text \<open>
  The buffer holds one contiguous \<^verbatim>\<open>uint8\<close> array: the single fragment itself, or the
  concatenation of the fragments.
\<close>

type_synonym ZeroExtendingBuffer = "byte list"

definition ZeroExtendingBuffer_init :: "byte list list \<Rightarrow> ZeroExtendingBuffer" where
  "ZeroExtendingBuffer_init fragmented_buffer =
     (if length fragmented_buffer = 1 then fragmented_buffer ! 0 else concat fragmented_buffer)"

definition ZeroExtendingBuffer_bit_length :: "ZeroExtendingBuffer \<Rightarrow> int" where
  "ZeroExtendingBuffer_bit_length zb = int (length zb) * 8"

text \<open>
  \<^verbatim>\<open>get_byte\<close>: the index is checked to be non-negative first, so the only
  \<^verbatim>\<open>IndexError\<close> that \<^verbatim>\<open>self._buf[index]\<close> can raise is the one past the end. The
  handler catches \<^verbatim>\<open>IndexError\<close> alone: the \<^verbatim>\<open>OverflowError\<close> of an index that does not
  fit the index type leaves the method.
\<close>

definition get_byte :: "ZeroExtendingBuffer \<Rightarrow> int \<Rightarrow> py_error + int" where
  "get_byte zb index =
     (if index < 0 then Inl ValueError
      else case np_index zb index of
             Inr j \<Rightarrow> Inr (uint (zb ! j))
           | Inl IndexError \<Rightarrow> Inr 0
           | Inl e \<Rightarrow> Inl e)"

text \<open>
  No index from \<open>lo\<close> to \<open>hi\<close> overflows the index type of the array: the condition under
  which \<^verbatim>\<open>self._buf[index]\<close> raises nothing but \<^verbatim>\<open>IndexError\<close> there.
\<close>

definition indices_fit :: "'a list \<Rightarrow> int \<Rightarrow> int \<Rightarrow> bool" where
  "indices_fit xs lo hi \<longleftrightarrow>
     (int (length xs) \<le> NPY_MAX_INTP \<longrightarrow> hi \<le> NPY_MAX_INTP \<or> 2 ^ 64 \<le> lo)"

definition get_unsigned_slice :: "ZeroExtendingBuffer \<Rightarrow> int \<Rightarrow> int \<Rightarrow> py_error + byte list" where
  "get_unsigned_slice zb left right =
     (if \<not> (0 \<le> left \<and> left \<le> right) then Inl ValueError
      else let count = right - left
           in if \<not> count \<ge> 0 then Inl AssertionError
              else let out = py_slice zb left right;
                       out' = (if int (length out) < count
                               then out @ replicate (nat (count - int (length out))) 0
                               else out)
                   in if int (length out') \<noteq> count then Inl AssertionError else Inr out')"

definition ZeroExtendingBuffer_fork_bytes ::
    "ZeroExtendingBuffer \<Rightarrow> int \<Rightarrow> int \<Rightarrow> py_error + byte list list" where
  "ZeroExtendingBuffer_fork_bytes zb offset_bytes length_bytes =
     (if offset_bytes + length_bytes > int (length zb) then Inl ValueError
      else let out = py_slice zb offset_bytes (offset_bytes + length_bytes)
           in if int (length out) \<noteq> length_bytes then Inl AssertionError else Inr [out])"

definition ensure_cardinal :: "int \<Rightarrow> ('s, unit) py" where
  "ensure_cardinal i = (if i < 0 then py_raise ValueError else py_return ())"

section \<open>Deserializer\<close>

record Deserializer =
  des_buf :: ZeroExtendingBuffer
  des_bit_offset :: int

definition consumed_bit_length :: "Deserializer \<Rightarrow> int" where
  "consumed_bit_length d = des_bit_offset d"

definition remaining_bit_length :: "Deserializer \<Rightarrow> int" where
  "remaining_bit_length d = ZeroExtendingBuffer_bit_length (des_buf d) - des_bit_offset d"

definition Deserializer_new :: "byte list list \<Rightarrow> py_error + Deserializer" where
  "Deserializer_new fragmented_buffer =
     (let d = \<lparr>des_buf = ZeroExtendingBuffer_init fragmented_buffer, des_bit_offset = 0\<rparr>
      in if consumed_bit_length d + remaining_bit_length d \<noteq> ZeroExtendingBuffer_bit_length (des_buf d)
         then Inl AssertionError else Inr d)"

definition des_byte_offset :: "Deserializer \<Rightarrow> int" where
  "des_byte_offset d = des_bit_offset d div 8"

definition des_aligned :: "Deserializer \<Rightarrow> bool" where
  "des_aligned d = (des_bit_offset d mod 8 = 0)"

definition des_advance :: "int \<Rightarrow> (Deserializer, unit) py" where
  "des_advance n = (\<lambda>d. (Inr (), d\<lparr>des_bit_offset := des_bit_offset d + n\<rparr>))"

definition Deserializer_skip_bits :: "int \<Rightarrow> (Deserializer, unit) py" where
  "Deserializer_skip_bits n = py_then (ensure_cardinal n) (des_advance n)"

definition Deserializer_fork_bytes :: "int \<Rightarrow> (Deserializer, Deserializer) py" where
  "Deserializer_fork_bytes forked_buffer_size_in_bytes =
     (\<lambda>d. if des_bit_offset d mod 8 \<noteq> 0 then (Inl ValueError, d)
          else let remaining = remaining_bit_length d
               in if remaining mod 8 \<noteq> 0 then (Inl AssertionError, d)
                  else let remaining_byte_length = remaining div 8
                       in if remaining_byte_length < forked_buffer_size_in_bytes
                          then (Inl ValueError, d)
                          else case ZeroExtendingBuffer_fork_bytes (des_buf d) (des_byte_offset d)
                                      forked_buffer_size_in_bytes of
                                 Inl e \<Rightarrow> (Inl e, d)
                               | Inr frags \<Rightarrow>
                                   (case Deserializer_new frags of
                                      Inl e \<Rightarrow> (Inl e, d)
                                    | Inr out \<Rightarrow>
                                        if remaining_bit_length out \<noteq> forked_buffer_size_in_bytes * 8
                                        then (Inl AssertionError, d)
                                        else (Inr out, d)))"

text \<open>The buffer reads, at the deserializer's level.\<close>

definition des_get_byte :: "int \<Rightarrow> (Deserializer, int) py" where
  "des_get_byte i = py_pure (\<lambda>d. get_byte (des_buf d) i)"

definition des_get_unsigned_slice :: "int \<Rightarrow> int \<Rightarrow> (Deserializer, byte list) py" where
  "des_get_unsigned_slice l r = py_pure (\<lambda>d. get_unsigned_slice (des_buf d) l r)"

text \<open>
  \<^verbatim>\<open>numpy.unpackbits(bs, bitorder="little")\<close>: eight booleans per byte, the least
  significant bit first.
\<close>

definition unpackbits_little :: "byte list \<Rightarrow> bool list" where
  "unpackbits_little bs = concat (map (\<lambda>b. map (bit b) [0..<8]) bs)"

subsection \<open>Aligned reads\<close>

definition fetch_aligned_array_of_bits :: "int \<Rightarrow> (Deserializer, bool list) py" where
  "fetch_aligned_array_of_bits count =
     py_then (ensure_cardinal count)
       (py_then (py_assert des_aligned)
          (py_bind (\<lambda>d. des_get_unsigned_slice (des_byte_offset d)
                           (des_byte_offset d + (count + 7) div 8) d)
             (\<lambda>bs. let out = py_slice_to (unpackbits_little bs) count
                   in py_then (des_advance count)
                        (py_then (py_assert (\<lambda>_. int (length out) = count))
                           (py_return out)))))"

definition fetch_aligned_bytes :: "int \<Rightarrow> (Deserializer, byte list) py" where
  "fetch_aligned_bytes count =
     py_then (ensure_cardinal count)
       (py_then (py_assert des_aligned)
          (py_bind (\<lambda>d. des_get_unsigned_slice (des_byte_offset d) (des_byte_offset d + count) d)
             (\<lambda>out. py_then (des_advance (count * 8))
                      (py_then (py_assert (\<lambda>_. int (length out) = count))
                         (py_return out)))))"

definition fetch_aligned_u8 :: "(Deserializer, int) py" where
  "fetch_aligned_u8 =
     py_then (py_assert des_aligned)
       (py_bind (\<lambda>d. des_get_byte (des_byte_offset d) d)
          (\<lambda>out. py_then (des_advance 8) (py_return out)))"

definition fetch_aligned_u16 :: "(Deserializer, int) py" where
  "fetch_aligned_u16 =
     py_bind fetch_aligned_u8
       (\<lambda>out. py_bind fetch_aligned_u8 (\<lambda>hi. py_return (out OR push_bit 8 hi)))"

definition fetch_aligned_u32 :: "(Deserializer, int) py" where
  "fetch_aligned_u32 =
     py_bind fetch_aligned_u16
       (\<lambda>out. py_bind fetch_aligned_u16 (\<lambda>hi. py_return (out OR push_bit 16 hi)))"

definition fetch_aligned_u64 :: "(Deserializer, int) py" where
  "fetch_aligned_u64 =
     py_bind fetch_aligned_u32
       (\<lambda>out. py_bind fetch_aligned_u32 (\<lambda>hi. py_return (out OR push_bit 32 hi)))"

definition fetch_aligned_i8 :: "(Deserializer, int) py" where
  "fetch_aligned_i8 = py_bind fetch_aligned_u8 (\<lambda>x. py_return (if x \<ge> 128 then x - 256 else x))"

definition fetch_aligned_i16 :: "(Deserializer, int) py" where
  "fetch_aligned_i16 =
     py_bind fetch_aligned_u16 (\<lambda>x. py_return (if x \<ge> 32768 then x - 65536 else x))"

definition fetch_aligned_i32 :: "(Deserializer, int) py" where
  "fetch_aligned_i32 =
     py_bind fetch_aligned_u32 (\<lambda>x. py_return (if x \<ge> 2 ^ 31 then x - 2 ^ 32 else x))"

definition fetch_aligned_i64 :: "(Deserializer, int) py" where
  "fetch_aligned_i64 =
     py_bind fetch_aligned_u64 (\<lambda>x. py_return (if x \<ge> 2 ^ 63 then x - 2 ^ 64 else x))"

text \<open>
  \<^verbatim>\<open>struct.unpack\<close> is the standard library's: a parameter \<open>unpack\<close>, from the format
  and the bytes to the float.
\<close>

type_synonym struct_unpack = "string \<Rightarrow> byte list \<Rightarrow> pyfloat"

definition fetch_aligned_f16 :: "struct_unpack \<Rightarrow> (Deserializer, pyfloat) py" where
  "fetch_aligned_f16 unpack = py_bind (fetch_aligned_bytes 2) (\<lambda>bs. py_return (unpack ''<e'' bs))"

definition fetch_aligned_f32 :: "struct_unpack \<Rightarrow> (Deserializer, pyfloat) py" where
  "fetch_aligned_f32 unpack = py_bind (fetch_aligned_bytes 4) (\<lambda>bs. py_return (unpack ''<f'' bs))"

definition fetch_aligned_f64 :: "struct_unpack \<Rightarrow> (Deserializer, pyfloat) py" where
  "fetch_aligned_f64 unpack = py_bind (fetch_aligned_bytes 8) (\<lambda>bs. py_return (unpack ''<d'' bs))"

text \<open>
  \<^verbatim>\<open>_unsigned_from_bytes\<close>: the loop ORs in every byte but the last; the last is masked.
\<close>

definition unsigned_from_bytes :: "byte list \<Rightarrow> int \<Rightarrow> py_error + int" where
  "unsigned_from_bytes x bit_length =
     (if \<not> bit_length \<ge> 1 then Inl AssertionError
      else let num_bytes = (bit_length + 7) div 8
           in if \<not> num_bytes > 0 then Inl AssertionError
              else let last_byte_index = nat (num_bytes - 1)
                   in if \<not> int (length x) \<ge> num_bytes then Inl AssertionError
                      else let out = fold (\<lambda>i out. out OR push_bit (i * 8) (uint (x ! i)))
                                       [0..<last_byte_index] 0;
                               msb_mask = (if bit_length mod 8 \<noteq> 0
                                           then 2 ^ nat (bit_length mod 8) - 1 else 0xFF)
                           in if msb_mask \<notin> {1, 3, 7, 15, 31, 63, 127, 255} then Inl AssertionError
                              else let out' = out OR push_bit (last_byte_index * 8)
                                                        (uint (x ! last_byte_index) AND msb_mask)
                                   in if \<not> (0 \<le> out' \<and> out' < 2 ^ nat bit_length)
                                      then Inl AssertionError
                                      else Inr out')"

definition fetch_aligned_unsigned :: "int \<Rightarrow> (Deserializer, int) py" where
  "fetch_aligned_unsigned bit_length =
     py_then (ensure_cardinal bit_length)
       (py_then (py_assert des_aligned)
          (py_bind (\<lambda>d. des_get_unsigned_slice (des_byte_offset d)
                           (des_byte_offset d + (bit_length + 7) div 8) d)
             (\<lambda>bs. py_then (des_advance bit_length)
                      (py_pure (\<lambda>_. unsigned_from_bytes bs bit_length)))))"

definition fetch_aligned_signed :: "int \<Rightarrow> (Deserializer, int) py" where
  "fetch_aligned_signed bit_length =
     py_then (py_assert (\<lambda>_. bit_length \<ge> 2))
       (py_bind (fetch_aligned_unsigned bit_length)
          (\<lambda>u. py_return (if u \<ge> 2 ^ nat (bit_length - 1) then u - 2 ^ nat bit_length else u)))"

subsection \<open>Unaligned reads\<close>

text \<open>
  The loop of \<^verbatim>\<open>fetch_unaligned_bytes\<close>: \<open>right\<close> and \<open>left\<close> are computed once; each
  round reads two bytes at the current byte offset and advances the cursor by eight.
\<close>

fun fetch_unaligned_bytes_loop :: "nat \<Rightarrow> nat \<Rightarrow> nat \<Rightarrow> (Deserializer, byte list) py" where
  "fetch_unaligned_bytes_loop left right 0 = py_return []"
| "fetch_unaligned_bytes_loop left right (Suc n) =
     py_bind (\<lambda>d. des_get_byte (des_byte_offset d) d)
       (\<lambda>a. py_bind (\<lambda>d. des_get_byte (des_byte_offset d + 1) d)
          (\<lambda>b. py_then (des_advance 8)
             (py_bind (fetch_unaligned_bytes_loop left right n)
                (\<lambda>rest. py_return
                   (word_of_int (drop_bit right a OR (push_bit left b AND 0xFF)) # rest)))))"

definition fetch_unaligned_bytes :: "int \<Rightarrow> (Deserializer, byte list) py" where
  "fetch_unaligned_bytes count =
     (\<lambda>d. if count > 0
          then if des_bit_offset d mod 8 \<noteq> 0
               then let right = nat (des_bit_offset d mod 8); left = 8 - right
                    in if \<not> ((1 \<le> right \<and> right \<le> 7) \<and> (1 \<le> left \<and> left \<le> 7))
                       then (Inl AssertionError, d)
                       else py_bind (fetch_unaligned_bytes_loop left right (nat count))
                              (\<lambda>out. py_then (py_assert (\<lambda>_. int (length out) = count))
                                       (py_return out)) d
               else fetch_aligned_bytes count d
          else (Inr [], d))"

definition fetch_unaligned_array_of_bits :: "int \<Rightarrow> (Deserializer, bool list) py" where
  "fetch_unaligned_array_of_bits count =
     py_then (ensure_cardinal count)
       (let byte_count = (count + 7) div 8
        in py_bind (fetch_unaligned_bytes byte_count)
             (\<lambda>bs. py_then (py_assert (\<lambda>_. int (length bs) = byte_count))
                (let backtrack = byte_count * 8 - count
                 in py_then (py_assert (\<lambda>_. 0 \<le> backtrack \<and> backtrack < 8))
                      (py_then (des_advance (- backtrack))
                         (let out = py_slice_to (unpackbits_little bs) count
                          in py_then (py_assert (\<lambda>_. int (length out) = count))
                               (py_return out))))))"

definition fetch_unaligned_unsigned :: "int \<Rightarrow> (Deserializer, int) py" where
  "fetch_unaligned_unsigned bit_length =
     py_then (ensure_cardinal bit_length)
       (let byte_length = (bit_length + 7) div 8
        in py_bind (fetch_unaligned_bytes byte_length)
             (\<lambda>bs. py_then (py_assert (\<lambda>_. int (length bs) = byte_length))
                (let backtrack = byte_length * 8 - bit_length
                 in py_then (py_assert (\<lambda>_. 0 \<le> backtrack \<and> backtrack < 8))
                      (py_then (des_advance (- backtrack))
                         (py_pure (\<lambda>_. unsigned_from_bytes bs bit_length))))))"

definition fetch_unaligned_signed :: "int \<Rightarrow> (Deserializer, int) py" where
  "fetch_unaligned_signed bit_length =
     py_then (py_assert (\<lambda>_. bit_length \<ge> 2))
       (py_bind (fetch_unaligned_unsigned bit_length)
          (\<lambda>u. py_return (if u \<ge> 2 ^ nat (bit_length - 1) then u - 2 ^ nat bit_length else u)))"

definition fetch_unaligned_f16 :: "struct_unpack \<Rightarrow> (Deserializer, pyfloat) py" where
  "fetch_unaligned_f16 unpack = py_bind (fetch_unaligned_bytes 2) (\<lambda>bs. py_return (unpack ''<e'' bs))"

definition fetch_unaligned_f32 :: "struct_unpack \<Rightarrow> (Deserializer, pyfloat) py" where
  "fetch_unaligned_f32 unpack = py_bind (fetch_unaligned_bytes 4) (\<lambda>bs. py_return (unpack ''<f'' bs))"

definition fetch_unaligned_f64 :: "struct_unpack \<Rightarrow> (Deserializer, pyfloat) py" where
  "fetch_unaligned_f64 unpack = py_bind (fetch_unaligned_bytes 8) (\<lambda>bs. py_return (unpack ''<d'' bs))"

definition fetch_unaligned_bit :: "(Deserializer, bool) py" where
  "fetch_unaligned_bit =
     (\<lambda>d. let mask = push_bit (nat (des_bit_offset d mod 8)) (1 :: int)
          in if \<not> (1 \<le> mask \<and> mask \<le> 128) then (Inl AssertionError, d)
             else py_bind (des_get_byte (des_byte_offset d))
                    (\<lambda>b. py_then (des_advance 1) (py_return (b AND mask = mask))) d)"

subsection \<open>Arrays of standard primitives (little-endian platform)\<close>

text \<open>
  \<^verbatim>\<open>_LittleEndianDeserializer\<close>. \<open>itemsize\<close> is \<^verbatim>\<open>numpy.dtype(dtype).itemsize\<close>; the
  result is the bytes that \<^verbatim>\<open>numpy.frombuffer\<close> reinterprets as \<open>count\<close> elements.
\<close>

definition fetch_aligned_array_of_standard_bit_length_primitives ::
    "int \<Rightarrow> int \<Rightarrow> (Deserializer, byte list) py" where
  "fetch_aligned_array_of_standard_bit_length_primitives itemsize count =
     py_then (py_assert des_aligned)
       (py_bind (\<lambda>d. des_get_unsigned_slice (des_byte_offset d)
                        (des_byte_offset d + count * itemsize) d)
          (\<lambda>out. py_then (py_assert (\<lambda>_. int (length out) div itemsize = count))
                   (py_then (des_advance (int (length out) * 8))
                      (py_return out))))"

definition fetch_unaligned_array_of_standard_bit_length_primitives ::
    "int \<Rightarrow> int \<Rightarrow> (Deserializer, byte list) py" where
  "fetch_unaligned_array_of_standard_bit_length_primitives itemsize count =
     py_bind (fetch_unaligned_bytes (itemsize * count))
       (\<lambda>bs. py_then (py_assert (\<lambda>_. int (length bs) \<ge> count))
                (py_return (py_slice_to bs (count * itemsize))))"

section \<open>The top-level deserialization function\<close>

text \<open>
  \<^verbatim>\<open>deserialize(dtype, fragments)\<close>. The generated method \<^verbatim>\<open>dtype._deserialize_\<close> is a
  parameter: any function from the deserializer to an outcome. \<^verbatim>\<open>FormatError\<close> of
  \<^typ>\<open>py_error\<close> stands for an exception whose class is \<^verbatim>\<open>Deserializer.FormatError\<close>
  or derives from it, which is what the \<^verbatim>\<open>except\<close> clause matches. The returned
  \<open>Inr None\<close> is Python's \<^verbatim>\<open>None\<close>. The handler only logs before it returns:
  \<^verbatim>\<open>get_model(dtype)\<close> reads the \<^verbatim>\<open>_MODEL_\<close> attribute that every generated type defines.
\<close>

definition deserialize :: "(Deserializer, 'a) py \<Rightarrow> byte list list \<Rightarrow> py_error + 'a option" where
  "deserialize dtype_deserialize fragmented_serialized_representation =
     (case Deserializer_new fragmented_serialized_representation of
        Inl e \<Rightarrow> Inl e
      | Inr deserializer \<Rightarrow>
          (case fst (dtype_deserialize deserializer) of
             Inr v \<Rightarrow> Inr (Some v)
           | Inl FormatError \<Rightarrow> Inr None
           | Inl e \<Rightarrow> Inl e))"

section \<open>Byte sequences as bit strings\<close>

text \<open>
  Properties of the codec are stated on the bit string that a byte sequence stands for.
  \<open>bytes_value\<close> is the little-endian number of a byte sequence (Python's
  \<^verbatim>\<open>int.from_bytes(bs, "little")\<close>): bit \<open>n\<close> of it is bit \<open>n mod 8\<close> of byte \<open>n div 8\<close>,
  and every bit past the last byte is zero. \<open>bytes_at z p n\<close> is the sequence of \<open>n\<close> bytes
  found in the bit string \<open>z\<close> from bit position \<open>p\<close> on.
\<close>

definition bytes_value :: "byte list \<Rightarrow> int" where
  "bytes_value bs = horner_sum uint 256 bs"

definition bytes_at :: "int \<Rightarrow> nat \<Rightarrow> nat \<Rightarrow> byte list" where
  "bytes_at z p n = map (\<lambda>i. word_of_int (drop_bit (p + 8 * i) z)) [0..<n]"

section \<open>Writing and reading one value at a bit offset\<close>

text \<open>
  The round trip of a value at a starting bit offset \<open>k\<close>, as the unit tests of the module
  do it: a new serializer of the given size skips \<open>k\<close> bits and performs one write, and its
  \<^verbatim>\<open>buffer\<close> is the serialized representation; a new deserializer over that
  representation skips \<open>k\<close> bits and performs one fetch.
\<close>

definition serialize_at :: "int \<Rightarrow> int \<Rightarrow> (Serializer, unit) py \<Rightarrow> py_error + byte list" where
  "serialize_at buffer_size_in_bytes k write =
     (case Serializer_new buffer_size_in_bytes of
        Inl e \<Rightarrow> Inl e
      | Inr ser \<Rightarrow>
          (case py_then (Serializer_skip_bits k) write ser of
             (Inl e, _) \<Rightarrow> Inl e
           | (Inr _, ser') \<Rightarrow> Inr (buffer ser')))"

definition deserialize_at :: "byte list \<Rightarrow> int \<Rightarrow> (Deserializer, 'a) py \<Rightarrow> py_error + 'a" where
  "deserialize_at data k read =
     (case Deserializer_new [data] of
        Inl e \<Rightarrow> Inl e
      | Inr des \<Rightarrow> fst (py_then (Deserializer_skip_bits k) read des))"

section \<open>Writing a prefix of single bits\<close>

text \<open>
  \<^verbatim>\<open>for x in ds: ser.add_unaligned_bit(x)\<close>: the way the unit tests of the module bring a
  serializer to a bit offset that is not a multiple of eight. \<open>bits_value\<close> is the number
  whose bit \<open>i\<close> is \<open>ds ! i\<close>.
\<close>

fun add_unaligned_bits :: "bool list \<Rightarrow> (Serializer, unit) py" where
  "add_unaligned_bits [] = py_return ()"
| "add_unaligned_bits (x # xs) = py_then (add_unaligned_bit x) (add_unaligned_bits xs)"

definition bits_value :: "bool list \<Rightarrow> int" where
  "bits_value ds = horner_sum of_bool 2 ds"

section \<open>The unit tests of the module\<close>

text \<open>
  The integer, byte and bit steps of \<^verbatim>\<open>_unittest_serializer_aligned\<close>,
  \<^verbatim>\<open>_unittest_serializer_unaligned\<close> and \<^verbatim>\<open>_unittest_deserializer_unaligned\<close>, in the
  order of the source, without the float and primitive-array steps. The expected bytes and
  values are the ones the source asserts.
\<close>

definition unittest_serializer_aligned :: "(Serializer, unit) py" where
  "unittest_serializer_aligned =
     py_then (add_aligned_u8 0xA7)
    (py_then (add_aligned_i64 0x1234567890ABCDEF)
    (py_then (add_aligned_i32 (- 0x12345678))
    (py_then (add_aligned_i16 (- 2))
    (py_then (Serializer_skip_bits 8)
    (py_then (add_aligned_i8 127)
    (py_then (add_aligned_unsigned 0xBEDA 12)
    (py_then (Serializer_skip_bits 4)
    (py_then (add_aligned_unsigned 0xBEDA 16)
    (py_then (add_aligned_signed (- 2) 9)
    (py_then (Serializer_skip_bits 7)
    (py_then (add_aligned_array_of_bits
                [True, False, True, False, False, False, True, True,
                 True, True, True, False, False, True, True, False])
             (add_aligned_array_of_bits
                [True, False, True, False, False, False, True, True,
                 True, True, False, True, False]))))))))))))"

definition unittest_serializer_unaligned :: "(Serializer, unit) py" where
  "unittest_serializer_unaligned =
     py_then (add_unaligned_array_of_bits
                [True, False, True, False, False, False, True, True, True, True, True])
    (py_then (add_unaligned_array_of_bits
                [True, False, True, False, False, True, True, True, False, True])
    (py_then (add_unaligned_bytes [0x12, 0x34, 0x56])
    (py_then (add_unaligned_array_of_bits [False, True, True])
    (py_then (add_unaligned_bytes [0x12, 0x34, 0x56])
    (py_then (add_unaligned_bit True)
    (py_then (add_unaligned_bit False)
    (py_then (add_unaligned_bit False)
    (py_then (add_unaligned_bit True)
    (py_then (add_unaligned_bit True)
    (py_then (add_unaligned_signed (- 2) 8)
    (py_then (add_unaligned_unsigned 0b11101100101 11)
             (add_unaligned_unsigned 0b1110 3))))))))))))"

definition unittest_deserializer_unaligned ::
    "(Deserializer, bool list \<times> bool list \<times> byte list \<times> bool list \<times> byte list \<times>
                    bool list \<times> int \<times> int \<times> int) py" where
  "unittest_deserializer_unaligned =
     py_bind (fetch_unaligned_array_of_bits 11)
    (\<lambda>a. py_bind (fetch_unaligned_array_of_bits 10)
    (\<lambda>b. py_bind (fetch_unaligned_bytes 3)
    (\<lambda>c. py_bind (fetch_unaligned_array_of_bits 3)
    (\<lambda>d. py_bind (fetch_unaligned_bytes 3)
    (\<lambda>e. py_bind fetch_unaligned_bit
    (\<lambda>f1. py_bind fetch_unaligned_bit
    (\<lambda>f2. py_bind fetch_unaligned_bit
    (\<lambda>f3. py_bind fetch_unaligned_bit
    (\<lambda>f4. py_bind fetch_unaligned_bit
    (\<lambda>f5. py_bind (fetch_unaligned_signed 8)
    (\<lambda>g. py_bind (fetch_unaligned_unsigned 11)
    (\<lambda>h. py_bind (fetch_unaligned_unsigned 3)
    (\<lambda>i. py_return (a, b, c, d, e, [f1, f2, f3, f4, f5], g, h, i))))))))))))))"

definition unittest_deserializer_zero_extension ::
    "(Deserializer, bool list \<times> int \<times> byte list \<times> int \<times> int \<times> int) py" where
  "unittest_deserializer_zero_extension =
     py_then (Deserializer_skip_bits (3 * 8))
    (py_bind (fetch_aligned_array_of_bits 100)
    (\<lambda>a. py_bind (\<lambda>d. (Inr (remaining_bit_length d), d))
    (\<lambda>r1. py_then (Deserializer_skip_bits 4)
    (py_bind (fetch_aligned_bytes 10)
    (\<lambda>b. py_then (Deserializer_skip_bits 64)
    (py_bind (\<lambda>d. (Inr (remaining_bit_length d), d))
    (\<lambda>r2. py_bind (fetch_aligned_unsigned 64)
    (\<lambda>u. py_bind (\<lambda>d. (Inr (remaining_bit_length d), d))
    (\<lambda>r3. py_return (a, r1, b, r2, u, r3))))))))))"

section \<open>Basic facts about the exception-and-state combinators\<close>

lemma py_bind_return [simp]: "py_bind (py_return v) f s = f v s"
  by (simp add: py_bind_def py_return_def)

lemma py_bind_raise [simp]: "py_bind (py_raise e) f s = (Inl e, s)"
  by (simp add: py_bind_def py_raise_def)

lemma py_then_return [simp]: "py_then (py_return v) n s = n s"
  by (simp add: py_then_def)

lemma py_then_raise [simp]: "py_then (py_raise e) n s = (Inl e, s)"
  by (simp add: py_then_def)

lemma py_then_assert [simp]:
  "py_then (py_assert c) n s = (if c s then n s else (Inl AssertionError, s))"
  by (simp add: py_then_def py_bind_def py_assert_def)

lemma py_then_ok: "m s = (Inr v, s') \<Longrightarrow> py_then m n s = n s'"
  by (simp add: py_then_def py_bind_def)

lemma py_then_err: "m s = (Inl e, s') \<Longrightarrow> py_then m n s = (Inl e, s')"
  by (simp add: py_then_def py_bind_def)

lemma py_bind_ok: "m s = (Inr v, s') \<Longrightarrow> py_bind m f s = f v s'"
  by (simp add: py_bind_def)

lemma py_bind_err: "m s = (Inl e, s') \<Longrightarrow> py_bind m f s = (Inl e, s')"
  by (simp add: py_bind_def)

lemma Deserializer_new_eq [simp]:
  "Deserializer_new frags = Inr \<lparr>des_buf = ZeroExtendingBuffer_init frags, des_bit_offset = 0\<rparr>"
  by (simp add: Deserializer_new_def consumed_bit_length_def remaining_bit_length_def)

section \<open>The top-level facade catches FormatError only\<close>

text \<open>
  Claim C9. For every generated type (every deserialization routine) and every sequence of
  input fragments: the deserializer is constructed; if the routine raises
  \<^verbatim>\<open>FormatError\<close>, \<^verbatim>\<open>deserialize\<close> returns \<^verbatim>\<open>None\<close> and raises nothing; an
  exception of any other class raised by the routine reaches the caller unchanged; a
  returned instance is returned.
\<close>

theorem deserialize_facade:
  "\<exists>d. Deserializer_new frags = Inr d \<and>
     (fst (routine d) = Inl FormatError \<longrightarrow> deserialize routine frags = Inr None) \<and>
     (\<forall>e. fst (routine d) = Inl e \<and> e \<noteq> FormatError \<longrightarrow> deserialize routine frags = Inl e) \<and>
     (\<forall>v. fst (routine d) = Inr v \<longrightarrow> deserialize routine frags = Inr (Some v))"
  by (auto simp: deserialize_def split: py_error.splits)

theorem deserialize_facade_witness:
  "deserialize (py_raise FormatError :: (Deserializer, nat) py) [[1, 2, 3]] = Inr None \<and>
   deserialize (py_raise TypeError :: (Deserializer, nat) py) [[1, 2, 3]] = Inl TypeError \<and>
   deserialize (py_return (7 :: nat)) [[1, 2, 3]] = Inr (Some 7)"
  using deserialize_facade [of "[[1, 2, 3]]" "py_raise FormatError :: (Deserializer, nat) py"]
        deserialize_facade [of "[[1, 2, 3]]" "py_raise TypeError :: (Deserializer, nat) py"]
        deserialize_facade [of "[[1, 2, 3]]" "py_return (7 :: nat)"]
  by (simp add: py_raise_def py_return_def)

section \<open>Unsigned writers reject negative integers\<close>

lemma ensure_not_negative_neg [simp]: "x < 0 \<Longrightarrow> ensure_not_negative x = py_raise ValueError"
  by (simp add: ensure_not_negative_def)

lemma ensure_not_negative_ok [simp]: "0 \<le> x \<Longrightarrow> ensure_not_negative x = py_return ()"
  by (simp add: ensure_not_negative_def)

lemma add_aligned_u8_negative:
  "x < 0 \<Longrightarrow> ser_aligned s \<Longrightarrow> add_aligned_u8 x s = (Inl ValueError, s)"
  by (simp add: add_aligned_u8_def)

lemma add_aligned_u16_negative: "x < 0 \<Longrightarrow> add_aligned_u16 x s = (Inl ValueError, s)"
  by (simp add: add_aligned_u16_def)

lemma add_aligned_u32_negative: "x < 0 \<Longrightarrow> add_aligned_u32 x s = (Inl ValueError, s)"
  by (simp add: add_aligned_u32_def py_then_err [OF add_aligned_u16_negative])

lemma add_aligned_u64_negative: "x < 0 \<Longrightarrow> add_aligned_u64 x s = (Inl ValueError, s)"
  by (simp add: add_aligned_u64_def py_then_err [OF add_aligned_u32_negative])

lemma add_aligned_unsigned_negative:
  "x < 0 \<Longrightarrow> ser_aligned s \<Longrightarrow> add_aligned_unsigned x w s = (Inl ValueError, s)"
  by (simp add: add_aligned_unsigned_def)

lemma add_unaligned_unsigned_negative:
  "x < 0 \<Longrightarrow> add_unaligned_unsigned x w s = (Inl ValueError, s)"
  by (simp add: add_unaligned_unsigned_def)

lemma add_aligned_u8_negative_any:
  "x < 0 \<Longrightarrow> add_aligned_u8 x s = (Inl (if ser_aligned s then ValueError else AssertionError), s)"
  by (simp add: add_aligned_u8_def)

lemma add_aligned_unsigned_negative_any:
  "x < 0 \<Longrightarrow>
   add_aligned_unsigned x w s = (Inl (if ser_aligned s then ValueError else AssertionError), s)"
  by (simp add: add_aligned_unsigned_def)

text \<open>
  Claim C6. Given a negative integer, each unsigned writer of the Serializer raises
  \<^verbatim>\<open>ValueError\<close> and leaves the serializer (buffer and cursor) exactly as it was:
  \<^verbatim>\<open>add_aligned_u16\<close>, \<^verbatim>\<open>add_aligned_u32\<close>, \<^verbatim>\<open>add_aligned_u64\<close> and
  \<^verbatim>\<open>add_unaligned_unsigned\<close> in every state, \<^verbatim>\<open>add_aligned_u8\<close> and
  \<^verbatim>\<open>add_aligned_unsigned\<close> at a byte-aligned cursor, the precondition of every aligned
  operation, which these two assert before they look at the value. At any cursor
  whatsoever these two raise as well and write nothing.
\<close>

theorem negative_unsigned_rejected:
  assumes "x < 0"
  shows "add_aligned_u16 x s = (Inl ValueError, s) \<and>
         add_aligned_u32 x s = (Inl ValueError, s) \<and>
         add_aligned_u64 x s = (Inl ValueError, s) \<and>
         add_unaligned_unsigned x w s = (Inl ValueError, s) \<and>
         (ser_aligned s \<longrightarrow> add_aligned_u8 x s = (Inl ValueError, s)) \<and>
         (ser_aligned s \<longrightarrow> add_aligned_unsigned x w s = (Inl ValueError, s)) \<and>
         (\<exists>e. add_aligned_u8 x s = (Inl e, s)) \<and>
         (\<exists>e. add_aligned_unsigned x w s = (Inl e, s))"
  using assms
  by (simp add: add_aligned_u8_negative_any add_aligned_u16_negative add_aligned_u32_negative
      add_aligned_u64_negative add_aligned_unsigned_negative_any add_unaligned_unsigned_negative)

theorem negative_unsigned_rejected_witness:
  "add_aligned_u8 (- 42) \<lparr>ser_buf = [0, 0, 0], ser_bit_offset = 8\<rparr>
     = (Inl ValueError, \<lparr>ser_buf = [0, 0, 0], ser_bit_offset = 8\<rparr>) \<and>
   add_aligned_unsigned (- 42) 12 \<lparr>ser_buf = [0, 0, 0], ser_bit_offset = 8\<rparr>
     = (Inl ValueError, \<lparr>ser_buf = [0, 0, 0], ser_bit_offset = 8\<rparr>) \<and>
   add_unaligned_unsigned (- 42) 12 \<lparr>ser_buf = [0, 0, 0], ser_bit_offset = 3\<rparr>
     = (Inl ValueError, \<lparr>ser_buf = [0, 0, 0], ser_bit_offset = 3\<rparr>)"
  using negative_unsigned_rejected [of "- 42" "\<lparr>ser_buf = [0, 0, 0], ser_bit_offset = 8\<rparr>" 12]
        negative_unsigned_rejected [of "- 42" "\<lparr>ser_buf = [0, 0, 0], ser_bit_offset = 3\<rparr>" 12]
  by (simp add: ser_aligned_def)

section \<open>Forking a serializer\<close>

lemma py_clip_nonneg: "0 \<le> a \<Longrightarrow> py_clip n a = min (nat a) n"
  by (simp add: py_clip_def)

lemma Serializer_fork_bytes_parent: "snd (Serializer_fork_bytes n s) = s"
  by (simp add: Serializer_fork_bytes_def Let_def)

lemma Serializer_fork_bytes_ValueError:
  assumes "0 \<le> ser_bit_offset s"
  shows "fst (Serializer_fork_bytes n s) = Inl ValueError \<longleftrightarrow>
         (ser_bit_offset s mod 8 \<noteq> 0 \<or>
          n + 1 > int (length (ser_buf s) - nat (ser_bit_offset s div 8)))"
proof -
  define bo where "bo = ser_bit_offset s div 8"
  have bo: "0 \<le> bo" using assms by (simp add: bo_def)
  have len: "length (py_slice_from (ser_buf s) bo) = length (ser_buf s) - nat bo"
    using bo by (simp add: py_slice_from_def py_clip_nonneg)
  show ?thesis
    unfolding Serializer_fork_bytes_def Let_def bo_def [symmetric] EXTRA_BUFFER_CAPACITY_BYTES_def len
    by auto
qed


lemma py_slice_to_take: "0 \<le> b \<Longrightarrow> py_slice_to xs b = take (nat b) xs"
  by (simp add: py_slice_to_def py_clip_nonneg min_def)

lemma py_slice_from_drop: "0 \<le> a \<Longrightarrow> py_slice_from xs a = drop (nat a) xs"
  by (simp add: py_slice_from_def py_clip_nonneg min_def)

lemma py_slice_to_length_neg: "b < 0 \<Longrightarrow> int (length (py_slice_to xs b)) \<noteq> b"
  by (simp add: py_slice_to_def)

lemma Serializer_fork_bytes_result:
  assumes "0 \<le> ser_bit_offset s" "fst (Serializer_fork_bytes n s) = Inr f"
  shows "f = \<lparr>ser_buf = take (nat (n + 1)) (drop (nat (ser_bit_offset s div 8)) (ser_buf s)),
              ser_bit_offset = 0\<rparr> \<and> int (length (ser_buf f)) = n + 1"
proof -
  define bo where "bo = ser_bit_offset s div 8"
  define fb where "fb = py_slice_from (ser_buf s) bo"
  have bo: "0 \<le> bo" using assms(1) by (simp add: bo_def)
  have fb: "fb = drop (nat bo) (ser_buf s)"
    using bo by (simp add: fb_def py_slice_from_drop)
  from assms(2) have ok: "int (length (py_slice_to fb (n + 1))) = n + 1"
    and f: "f = \<lparr>ser_buf = py_slice_to fb (n + 1), ser_bit_offset = 0\<rparr>"
    by (simp_all add: Serializer_fork_bytes_def Let_def bo_def [symmetric] fb_def [symmetric]
        EXTRA_BUFFER_CAPACITY_BYTES_def split: if_splits)
  have "0 \<le> n + 1"
    using ok py_slice_to_length_neg [of "n + 1" fb] by linarith
  then have "py_slice_to fb (n + 1) = take (nat (n + 1)) fb"
    by (rule py_slice_to_take)
  with f ok fb show ?thesis by (simp add: bo_def)
qed

lemma Serializer_fork_bytes_success:
  assumes "0 \<le> ser_bit_offset s" "ser_bit_offset s mod 8 = 0" "0 \<le> n"
    "n + 1 \<le> int (length (ser_buf s) - nat (ser_bit_offset s div 8))"
  shows "\<exists>f. fst (Serializer_fork_bytes n s) = Inr f"
proof -
  define bo where "bo = ser_bit_offset s div 8"
  have bo: "0 \<le> bo" using assms(1) by (simp add: bo_def)
  have fb: "py_slice_from (ser_buf s) bo = drop (nat bo) (ser_buf s)"
    using bo by (simp add: py_slice_from_drop)
  have tk: "py_slice_to (drop (nat bo) (ser_buf s)) (n + 1) = take (nat (n + 1)) (drop (nat bo) (ser_buf s))"
    using assms(3) by (simp add: py_slice_to_take)
  show ?thesis
    unfolding Serializer_fork_bytes_def Let_def bo_def [symmetric] EXTRA_BUFFER_CAPACITY_BYTES_def fb tk
    using assms(2,3,4) bo by (auto simp: bo_def [symmetric] min_def)
qed

text \<open>
  Claim C3. \<^verbatim>\<open>fork_bytes(n)\<close> on a serializer raises \<^verbatim>\<open>ValueError\<close> if and only if the
  cursor is not byte-aligned or \<open>n + 1\<close> exceeds the number of bytes from the cursor's
  byte to the end of the parent's buffer. Whenever it returns a serializer, that
  serializer's buffer is the window of the parent's buffer that starts at byte
  \<open>bit_offset div 8\<close> and has length \<open>n + 1\<close>, and its cursor is 0; it does return one for
  every size \<open>n \<ge> 0\<close> outside the error condition. In every case the parent is left as it
  was, its cursor included.
\<close>

theorem Serializer_fork_bytes_spec:
  assumes "0 \<le> ser_bit_offset s"
  shows "(fst (Serializer_fork_bytes n s) = Inl ValueError \<longleftrightarrow>
            (ser_bit_offset s mod 8 \<noteq> 0 \<or>
             n + 1 > int (length (ser_buf s) - nat (ser_bit_offset s div 8)))) \<and>
         (\<forall>f. fst (Serializer_fork_bytes n s) = Inr f \<longrightarrow>
            ser_buf f = take (nat (n + 1)) (drop (nat (ser_bit_offset s div 8)) (ser_buf s)) \<and>
            int (length (ser_buf f)) = n + 1 \<and> ser_bit_offset f = 0) \<and>
         (0 \<le> n \<and> ser_bit_offset s mod 8 = 0 \<and>
            n + 1 \<le> int (length (ser_buf s) - nat (ser_bit_offset s div 8)) \<longrightarrow>
            (\<exists>f. fst (Serializer_fork_bytes n s) = Inr f)) \<and>
         snd (Serializer_fork_bytes n s) = s"
  using Serializer_fork_bytes_ValueError [OF assms, of n]
    Serializer_fork_bytes_result [OF assms(1), of n]
    Serializer_fork_bytes_success [OF assms(1), of n]
    Serializer_fork_bytes_parent [of n s]
  by auto

theorem Serializer_fork_bytes_spec_witness:
  "fst (Serializer_fork_bytes 1 \<lparr>ser_buf = [123, 0, 0, 0], ser_bit_offset = 1\<rparr>) = Inl ValueError \<and>
   fst (Serializer_fork_bytes 3 \<lparr>ser_buf = [123, 0, 0, 0], ser_bit_offset = 8\<rparr>) = Inl ValueError \<and>
   fst (Serializer_fork_bytes 2 \<lparr>ser_buf = [123, 42, 11, 0], ser_bit_offset = 8\<rparr>)
     = Inr \<lparr>ser_buf = [42, 11, 0], ser_bit_offset = 0\<rparr> \<and>
   snd (Serializer_fork_bytes 2 \<lparr>ser_buf = [123, 42, 11, 0], ser_bit_offset = 8\<rparr>)
     = \<lparr>ser_buf = [123, 42, 11, 0], ser_bit_offset = 8\<rparr>"
  using Serializer_fork_bytes_spec [of "\<lparr>ser_buf = [123, 0, 0, 0], ser_bit_offset = 1\<rparr>" 1]
    Serializer_fork_bytes_spec [of "\<lparr>ser_buf = [123, 0, 0, 0], ser_bit_offset = 8\<rparr>" 3]
    Serializer_fork_bytes_spec [of "\<lparr>ser_buf = [123, 42, 11, 0], ser_bit_offset = 8\<rparr>" 2]
  by auto

section \<open>Forking a deserializer\<close>

lemma py_slice_nonneg:
  "0 \<le> a \<Longrightarrow> a \<le> b \<Longrightarrow> py_slice xs a b = take (nat b - nat a) (drop (nat a) xs)"
  by (auto simp: py_slice_def py_clip_nonneg Let_def min_def)

lemma length_take_drop_int:
  "0 \<le> bo \<Longrightarrow> 0 \<le> n \<Longrightarrow> bo + n \<le> int (length xs) \<Longrightarrow>
   int (length (take (nat n) (drop (nat bo) xs))) = n"
  by (auto simp: min_def)

lemma ZeroExtendingBuffer_init_single [simp]: "ZeroExtendingBuffer_init [x] = x"
  by (simp add: ZeroExtendingBuffer_init_def)

lemma get_byte_in_range:
  "0 \<le> i \<Longrightarrow> i < int (length zb) \<Longrightarrow> get_byte zb i = Inr (uint (zb ! nat i))"
  by (simp add: get_byte_def np_index_def)

lemma indices_fit_within: "hi \<le> int (length xs) \<Longrightarrow> indices_fit xs lo hi"
  by (simp add: indices_fit_def)

lemma indices_fit_below: "hi \<le> NPY_MAX_INTP \<Longrightarrow> indices_fit xs lo hi"
  by (simp add: indices_fit_def)

lemma indices_fit_mono:
  "indices_fit xs lo hi \<Longrightarrow> lo \<le> lo' \<Longrightarrow> hi' \<le> hi \<Longrightarrow> indices_fit xs lo' hi'"
  by (auto simp: indices_fit_def)

lemma get_byte_past_end:
  "int (length zb) \<le> i \<Longrightarrow> indices_fit zb i i \<Longrightarrow> get_byte zb i = Inr 0"
  by (auto simp: get_byte_def np_index_def indices_fit_def)

lemma get_byte_overflow:
  "int (length zb) \<le> NPY_MAX_INTP \<Longrightarrow> NPY_MAX_INTP < i \<Longrightarrow> i < 2 ^ 64 \<Longrightarrow>
   get_byte zb i = Inl OverflowError"
  by (auto simp: get_byte_def np_index_def NPY_MAX_INTP_def)

lemma get_unsigned_slice_past_end:
  assumes "int (length zb) \<le> l" "l \<le> r"
  shows "get_unsigned_slice zb l r = Inr (replicate (nat (r - l)) 0)"
proof -
  have l: "0 \<le> l" using assms(1) by linarith
  have "py_slice zb l r = []"
    using l assms by (simp add: py_slice_nonneg)
  then show ?thesis
    using l assms(2) by (simp add: get_unsigned_slice_def Let_def)
qed

lemma Deserializer_fork_bytes_error:
  assumes "des_bit_offset d mod 8 \<noteq> 0 \<or> remaining_bit_length d div 8 < n"
  shows "Deserializer_fork_bytes n d = (Inl ValueError, d)"
proof (cases "des_bit_offset d mod 8 = 0")
  case False
  then show ?thesis by (simp add: Deserializer_fork_bytes_def)
next
  case True
  then have "remaining_bit_length d mod 8 = 0"
    by (simp add: remaining_bit_length_def ZeroExtendingBuffer_bit_length_def mod_diff_eq [symmetric] del: mod_diff_eq)
  with True assms show ?thesis
    by (simp add: Deserializer_fork_bytes_def Let_def)
qed

lemma Deserializer_fork_bytes_ok:
  assumes pos: "0 \<le> des_bit_offset d" and al: "des_bit_offset d mod 8 = 0"
    and n: "0 \<le> n" "n \<le> remaining_bit_length d div 8"
  shows "Deserializer_fork_bytes n d =
           (Inr \<lparr>des_buf = take (nat n) (drop (nat (des_bit_offset d div 8)) (des_buf d)),
                 des_bit_offset = 0\<rparr>, d)"
proof -
  define bo where "bo = des_bit_offset d div 8"
  define len where "len = int (length (des_buf d))"
  have off: "des_bit_offset d = 8 * bo"
    using al unfolding bo_def by presburger
  have rem: "remaining_bit_length d = 8 * (len - bo)"
    by (simp add: remaining_bit_length_def ZeroExtendingBuffer_bit_length_def off len_def)
  have bo: "0 \<le> bo" using pos by (simp add: bo_def pos_imp_zdiv_nonneg_iff)
  have fit: "bo + n \<le> len" using n(2) by (simp add: rem)
  have sl: "py_slice (des_buf d) bo (bo + n) = take (nat n) (drop (nat bo) (des_buf d))"
    using bo n(1) by (simp add: py_slice_nonneg nat_add_distrib)
  have ln: "int (length (take (nat n) (drop (nat bo) (des_buf d)))) = n"
    using bo n(1) fit by (simp only: len_def length_take_drop_int)
  have zf: "ZeroExtendingBuffer_fork_bytes (des_buf d) bo n
              = Inr [take (nat n) (drop (nat bo) (des_buf d))]"
    using fit ln by (simp add: ZeroExtendingBuffer_fork_bytes_def Let_def sl len_def)
  have r2: "remaining_bit_length \<lparr>des_buf = take (nat n) (drop (nat bo) (des_buf d)), des_bit_offset = 0\<rparr> = n * 8"
    using ln by (simp add: remaining_bit_length_def ZeroExtendingBuffer_bit_length_def)
  show ?thesis
    unfolding Deserializer_fork_bytes_def Let_def des_byte_offset_def bo_def [symmetric]
    using al n(2) zf r2 by (simp add: rem)
qed

text \<open>
  Claim C4. When the parent's cursor is byte-aligned and the size \<open>n\<close> (a byte count) does
  not exceed the remaining whole bytes, \<^verbatim>\<open>fork_bytes(n)\<close> returns a deserializer and leaves
  the parent unchanged; the fork has consumed nothing and reports
  \<open>remaining_bit_length = n * 8\<close>; its bytes \<open>0 .. n - 1\<close> are the parent's bytes from the
  cursor on, and what it reads at or past index \<open>n\<close> is zero, whatever the parent holds
  there: every slice, and every single byte whose index \<^verbatim>\<open>get_byte\<close> can address (one
  below \<open>2^63\<close> or from \<open>2^64\<close> on). When the cursor is unaligned or \<open>n\<close> exceeds the
  remaining bytes, the call raises \<^verbatim>\<open>ValueError\<close>.
\<close>

theorem Deserializer_fork_bytes_spec:
  "(0 \<le> des_bit_offset d \<and> des_bit_offset d mod 8 = 0 \<and> 0 \<le> n \<and> n \<le> remaining_bit_length d div 8 \<longrightarrow>
      (\<exists>f. Deserializer_fork_bytes n d = (Inr f, d) \<and>
           consumed_bit_length f = 0 \<and> remaining_bit_length f = n * 8 \<and>
           (\<forall>i. 0 \<le> i \<and> i < n \<longrightarrow> get_byte (des_buf f) i = get_byte (des_buf d) (des_bit_offset d div 8 + i)) \<and>
           (\<forall>i. n \<le> i \<and> (i < 2 ^ 63 \<or> 2 ^ 64 \<le> i) \<longrightarrow> get_byte (des_buf f) i = Inr 0) \<and>
           (\<forall>l r. n \<le> l \<and> l \<le> r \<longrightarrow>
              get_unsigned_slice (des_buf f) l r = Inr (replicate (nat (r - l)) 0)))) \<and>
   (des_bit_offset d mod 8 \<noteq> 0 \<or> remaining_bit_length d div 8 < n \<longrightarrow>
      Deserializer_fork_bytes n d = (Inl ValueError, d))"
proof (intro conjI impI)
  assume h: "0 \<le> des_bit_offset d \<and> des_bit_offset d mod 8 = 0 \<and> 0 \<le> n \<and> n \<le> remaining_bit_length d div 8"
  define bo where "bo = des_bit_offset d div 8"
  define f where "f = \<lparr>des_buf = take (nat n) (drop (nat bo) (des_buf d)), des_bit_offset = 0\<rparr>"
  have bo: "0 \<le> bo" using h by (simp add: bo_def pos_imp_zdiv_nonneg_iff)
  have "des_bit_offset d = 8 * bo" using h unfolding bo_def by presburger
  then have fit: "bo + n \<le> int (length (des_buf d))"
    using h by (simp add: remaining_bit_length_def ZeroExtendingBuffer_bit_length_def)
  have ln: "int (length (des_buf f)) = n"
    using bo h fit by (simp add: f_def length_take_drop_int del: length_take length_drop)
  have 1: "Deserializer_fork_bytes n d = (Inr f, d)"
    using Deserializer_fork_bytes_ok [of d n] h by (simp add: f_def bo_def)
  have 2: "consumed_bit_length f = 0" by (simp add: consumed_bit_length_def f_def)
  have 3: "remaining_bit_length f = n * 8"
    using ln by (simp add: remaining_bit_length_def ZeroExtendingBuffer_bit_length_def f_def)
  have 4: "get_byte (des_buf f) i = get_byte (des_buf d) (bo + i)" if "0 \<le> i \<and> i < n" for i
  proof -
    have "get_byte (des_buf f) i = Inr (uint (des_buf f ! nat i))"
      using that ln by (simp add: get_byte_in_range)
    also have "des_buf f ! nat i = des_buf d ! (nat bo + nat i)"
    proof -
      have "nat bo \<le> length (des_buf d)" using bo fit that by linarith
      then show ?thesis using that by (simp add: f_def)
    qed
    also have "Inr (uint (des_buf d ! (nat bo + nat i))) = get_byte (des_buf d) (bo + i)"
      using that bo fit by (simp add: get_byte_in_range nat_add_distrib)
    finally show ?thesis .
  qed
  have 5: "get_byte (des_buf f) i = Inr 0" if "n \<le> i \<and> (i < 2 ^ 63 \<or> 2 ^ 64 \<le> i)" for i
  proof -
    from that have "indices_fit (des_buf f) i i"
      by (auto simp: indices_fit_def NPY_MAX_INTP_def)
    with that ln show ?thesis by (simp add: get_byte_past_end)
  qed
  have 6: "get_unsigned_slice (des_buf f) l r = Inr (replicate (nat (r - l)) 0)"
    if "n \<le> l \<and> l \<le> r" for l r
    using that ln by (simp add: get_unsigned_slice_past_end)
  show "\<exists>f. Deserializer_fork_bytes n d = (Inr f, d) \<and>
           consumed_bit_length f = 0 \<and> remaining_bit_length f = n * 8 \<and>
           (\<forall>i. 0 \<le> i \<and> i < n \<longrightarrow> get_byte (des_buf f) i = get_byte (des_buf d) (des_bit_offset d div 8 + i)) \<and>
           (\<forall>i. n \<le> i \<and> (i < 2 ^ 63 \<or> 2 ^ 64 \<le> i) \<longrightarrow> get_byte (des_buf f) i = Inr 0) \<and>
           (\<forall>l r. n \<le> l \<and> l \<le> r \<longrightarrow>
              get_unsigned_slice (des_buf f) l r = Inr (replicate (nat (r - l)) 0))"
    using 1 2 3 4 5 6 unfolding bo_def by blast
next
  assume "des_bit_offset d mod 8 \<noteq> 0 \<or> remaining_bit_length d div 8 < n"
  then show "Deserializer_fork_bytes n d = (Inl ValueError, d)"
    by (rule Deserializer_fork_bytes_error)
qed

theorem Deserializer_fork_bytes_spec_witness:
  "(\<exists>f. Deserializer_fork_bytes 2 \<lparr>des_buf = [167, 239, 205, 171], des_bit_offset = 8\<rparr>
          = (Inr f, \<lparr>des_buf = [167, 239, 205, 171], des_bit_offset = 8\<rparr>) \<and>
        remaining_bit_length f = 16 \<and>
        get_byte (des_buf f) 1 = Inr 205 \<and> get_byte (des_buf f) 2 = Inr 0) \<and>
   Deserializer_fork_bytes 4 \<lparr>des_buf = [167, 239, 205, 171], des_bit_offset = 8\<rparr>
     = (Inl ValueError, \<lparr>des_buf = [167, 239, 205, 171], des_bit_offset = 8\<rparr>) \<and>
   Deserializer_fork_bytes 1 \<lparr>des_buf = [167, 239, 205, 171], des_bit_offset = 3\<rparr>
     = (Inl ValueError, \<lparr>des_buf = [167, 239, 205, 171], des_bit_offset = 3\<rparr>)"
proof -
  let ?d = "\<lparr>des_buf = [167, 239, 205, 171 :: byte], des_bit_offset = 8\<rparr>"
  have r: "remaining_bit_length ?d = 24"
    by (simp add: remaining_bit_length_def ZeroExtendingBuffer_bit_length_def)
  have g: "get_byte (des_buf ?d) (1 + 1) = Inr 205"
    by (simp add: get_byte_def np_index_def)
  from Deserializer_fork_bytes_spec [of ?d 2] r
  obtain f where f: "Deserializer_fork_bytes 2 ?d = (Inr f, ?d)" "remaining_bit_length f = 16"
    "\<forall>i. 0 \<le> i \<and> i < 2 \<longrightarrow> get_byte (des_buf f) i = get_byte (des_buf ?d) (1 + i)"
    "\<forall>i. 2 \<le> i \<and> (i < 2 ^ 63 \<or> 2 ^ 64 \<le> i) \<longrightarrow> get_byte (des_buf f) i = Inr 0"
    by auto
  from f(3) g have "get_byte (des_buf f) 1 = Inr 205" by simp
  moreover from f(4) have "get_byte (des_buf f) 2 = Inr 0" by simp
  moreover have "Deserializer_fork_bytes 4 ?d = (Inl ValueError, ?d)"
    using Deserializer_fork_bytes_spec [of ?d 4] r by simp
  moreover have "Deserializer_fork_bytes 1 \<lparr>des_buf = [167, 239, 205, 171], des_bit_offset = 3\<rparr>
     = (Inl ValueError, \<lparr>des_buf = [167, 239, 205, 171], des_bit_offset = 3\<rparr>)"
    using Deserializer_fork_bytes_spec [of "\<lparr>des_buf = [167, 239, 205, 171], des_bit_offset = 3\<rparr>" 1] by simp
  ultimately show ?thesis using f(1,2) by blast
qed

section \<open>Arithmetic of bit and byte positions\<close>

lemma split8: obtains q t :: nat where "n = 8 * q + t" "t < 8" "n div 8 = q" "n mod 8 = t"
proof
  show "n = 8 * (n div 8) + n mod 8" by simp
  show "n mod 8 < 8" by simp
qed simp_all

lemma lt8_div: "n < 8 * m \<longleftrightarrow> n div 8 < (m::nat)"
proof -
  obtain q t where "n = 8 * q + t" "t < 8" "n div 8 = q" "n mod 8 = t" by (rule split8)
  then show ?thesis by auto
qed

lemma lt8_div_r:
  assumes "r \<le> 8"
  shows "n < 8 * m + r \<longleftrightarrow> n div 8 < m \<or> (n div 8 = m \<and> n mod 8 < (r::nat))"
proof -
  obtain q t where "n = 8 * q + t" "t < 8" "n div 8 = q" "n mod 8 = t" by (rule split8)
  with assms show ?thesis by auto
qed

lemma msb_bits_bounds:
  "1 \<le> (if (w::int) mod 8 \<noteq> 0 then nat (w mod 8) else 8) \<and> (if w mod 8 \<noteq> 0 then nat (w mod 8) else 8) \<le> 8"
proof -
  have "0 \<le> w mod 8" "w mod 8 < 8" by simp_all
  then show ?thesis by auto
qed

lemma push_byte_arith1:
  assumes "8 * m \<le> n" "n - 8 * m < 8"
  shows "n div 8 = (m::nat) \<and> n mod 8 = n - 8 * m"
proof -
  obtain q t where qt: "n = 8 * q + t" "t < 8" "n div 8 = q" "n mod 8 = t" by (rule split8)
  with assms have "q = m" by linarith
  with qt show ?thesis by simp
qed

lemma push_byte_arith2:
  assumes "n div 8 = (m::nat)"
  shows "8 * m \<le> n \<and> n - 8 * m < 8 \<and> n mod 8 = n - 8 * m"
proof -
  obtain q t where "n = 8 * q + t" "t < 8" "n div 8 = q" "n mod 8 = t" by (rule split8)
  with assms show ?thesis by auto
qed

lemma ceil8_split:
  assumes "1 \<le> (w::int)"
  shows "nat w = 8 * nat ((w + 7) div 8 - 1) + (if w mod 8 \<noteq> 0 then nat (w mod 8) else 8)"
proof -
  define q where "q = w div 8"
  define m where "m = w mod 8"
  have w: "w = 8 * q + m" by (simp add: q_def m_def)
  have m: "0 \<le> m" "m < 8" by (simp_all add: m_def)
  have q: "0 \<le> q" using assms by (simp add: q_def pos_imp_zdiv_nonneg_iff)
  show ?thesis
  proof (cases "m = 0")
    case True
    then have "(w + 7) div 8 = q" by (simp add: w)
    moreover have "1 \<le> q" using assms True w by linarith
    ultimately show ?thesis
      unfolding m_def [symmetric] using True w by (simp add: nat_mult_distrib)
  next
    case False
    then have "(8 * q + m + 7) div 8 = q + 1" using m by linarith
    then have "(w + 7) div 8 = q + 1" by (simp add: w)
    then show ?thesis
      unfolding m_def [symmetric] using False w q m by (simp add: nat_add_distrib nat_mult_distrib)
  qed
qed

lemma bit_bytes_value:
  "bit (bytes_value xs) n \<longleftrightarrow> n div 8 < length xs \<and> bit (xs ! (n div 8)) (n mod 8)"
  using bit_horner_sum_uint_exp_iff [where 'a = 8, of xs n] by (simp add: bytes_value_def)

lemma bytes_value_nonneg [simp]: "0 \<le> bytes_value xs"
  by (induction xs) (simp_all add: bytes_value_def)

lemma bytes_value_Nil [simp]: "bytes_value [] = 0"
  by (simp add: bytes_value_def)

lemma bytes_value_Cons: "bytes_value (b # bs) = uint b OR push_bit 8 (bytes_value bs)"
  by (rule bit_eqI) (auto simp: bit_bytes_value bit_simps nth_Cons' div_eq_0_iff le_div_geq le_mod_geq
      dest: bit_imp_le_length)

lemma length_bytes_at [simp]: "length (bytes_at z p n) = n"
  by (simp add: bytes_at_def)

lemma bit_bytes_at:
  "i < n \<Longrightarrow> bit (bytes_at z p n ! i) m \<longleftrightarrow> m < 8 \<and> bit z (p + 8 * i + m)"
  by (auto simp: bytes_at_def bit_simps ac_simps)

lemma bytes_value_bytes_at: "bytes_value (bytes_at z p n) = take_bit (8 * n) (drop_bit p z)"
proof (rule bit_eqI)
  fix m
  have "m div 8 < n \<longleftrightarrow> m < 8 * n" by auto
  moreover have "8 * (m div 8) + m mod 8 = m" by simp
  ultimately show "bit (bytes_value (bytes_at z p n)) m = bit (take_bit (8 * n) (drop_bit p z)) m"
    by (auto simp: bit_bytes_value bit_bytes_at bit_simps ac_simps)
qed

section \<open>The buffer reads and the integer conversions, on bit strings\<close>

lemma div8_add2: "m < 8 \<Longrightarrow> (8 * a + 8 * i + m) div 8 = a + (i::nat)"
  by linarith

lemma mod8_add2: "m < 8 \<Longrightarrow> (8 * a + 8 * i + m) mod 8 = (m::nat)"
  by (metis add.commute distrib_left mod_less mod_mult_self4 mult.commute)

lemma div8_add: "(8 * j + m) div 8 = j + m div (8::nat)" by simp
lemma mod8_add: "(8 * j + m) mod 8 = m mod (8::nat)" by simp

lemma unsigned_to_bytes_loop_length [simp]: "length (unsigned_to_bytes_loop n v) = n"
  by (induction n arbitrary: v) simp_all

lemma word_of_int_and_255: "(word_of_int (v AND 0xFF) :: byte) = word_of_int v"
proof (rule bit_word_eqI)
  fix m assume "m < LENGTH(8)"
  then have "bit (255 :: int) m"
    using bit_mask_iff [where 'a = int, of 8 m] by (simp add: mask_eq_exp_minus_1)
  then show "bit (word_of_int (v AND 0xFF) :: byte) m = bit (word_of_int v :: byte) m"
    by (simp add: bit_simps)
qed

lemma unsigned_to_bytes_loop_nth:
  "i < n \<Longrightarrow> unsigned_to_bytes_loop n v ! i = word_of_int (drop_bit (8 * i) v)"
proof (induction n arbitrary: v i)
  case 0
  then show ?case by simp
next
  case (Suc n)
  show ?case
  proof (cases i)
    case 0
    then show ?thesis by (simp add: word_of_int_and_255)
  next
    case (Suc j)
    with Suc.prems have "j < n" by simp
    from Suc.IH [OF this, of "drop_bit 8 v"] Suc show ?thesis
      by (simp add: drop_bit_drop_bit add.commute)
  qed
qed

lemma unsigned_to_bytes_loop_eq: "unsigned_to_bytes_loop n v = bytes_at v 0 n"
  by (rule nth_equalityI) (simp_all add: unsigned_to_bytes_loop_nth bytes_at_def)

lemma and_mask_int: "v AND (2 ^ n - 1) = take_bit n (v :: int)"
  by (simp add: take_bit_eq_mask mask_eq_exp_minus_1)

lemma unsigned_to_bytes_eq:
  "1 \<le> w \<Longrightarrow> 0 \<le> v \<Longrightarrow>
   unsigned_to_bytes v w = Inr (bytes_at (take_bit (nat w) v) 0 (nat ((w + 7) div 8)))"
  by (simp add: unsigned_to_bytes_def Let_def and_mask_int unsigned_to_bytes_loop_eq)

lemma get_byte_eq:
  assumes "0 \<le> j" "indices_fit zb j j"
  shows "get_byte zb j = Inr (take_bit 8 (drop_bit (8 * nat j) (bytes_value zb)))"
proof (cases "j < int (length zb)")
  case True
  have "uint (zb ! nat j) = take_bit 8 (drop_bit (8 * nat j) (bytes_value zb))"
  proof (rule bit_eqI)
    fix m
    show "bit (uint (zb ! nat j)) m = bit (take_bit 8 (drop_bit (8 * nat j) (bytes_value zb))) m"
    proof (cases "m < 8")
      case True
      moreover from \<open>j < int (length zb)\<close> assms have "nat j < length zb" by linarith
      ultimately show ?thesis
        by (simp add: bit_simps bit_bytes_value div8_add mod8_add)
    next
      case False
      then have "\<not> bit (zb ! nat j) m" using bit_imp_le_length [of "zb ! nat j" m] by auto
      with False show ?thesis by (simp add: bit_simps)
    qed
  qed
  with True assms(1) show ?thesis by (simp add: get_byte_def np_index_def)
next
  case False
  have "take_bit 8 (drop_bit (8 * nat j) (bytes_value zb)) = 0"
  proof (rule bit_eqI)
    fix m
    show "bit (take_bit 8 (drop_bit (8 * nat j) (bytes_value zb))) m = bit (0::int) m"
      using False assms(1) by (auto simp: bit_simps bit_bytes_value div8_add)
  qed
  moreover from False assms(2) have "get_byte zb j = Inr 0"
    by (simp add: get_byte_past_end)
  ultimately show ?thesis by simp
qed

lemma get_unsigned_slice_eq:
  assumes "0 \<le> l" "l \<le> r"
  shows "get_unsigned_slice zb l r = Inr (bytes_at (bytes_value zb) (8 * nat l) (nat (r - l)))"
proof -
  define out where "out = take (nat r - nat l) (drop (nat l) zb)"
  define out' where "out' = (if int (length out) < r - l
                               then out @ replicate (nat (r - l - int (length out))) 0 else out)"
  have cnt: "nat r - nat l = nat (r - l)" using assms by linarith
  have le: "length out \<le> nat (r - l)" by (simp add: out_def cnt)
  have len: "length out' = nat (r - l)"
    using le assms by (auto simp: out'_def)
  have nth: "out' ! i = (if nat l + i < length zb then zb ! (nat l + i) else 0)" if "i < nat (r - l)" for i
  proof (cases "i < length out")
    case True
    then have "out' ! i = out ! i" by (simp add: out'_def nth_append)
    also have "\<dots> = zb ! (nat l + i)"
    proof -
      from True have "nat l \<le> length zb" by (simp add: out_def) linarith
      with True show ?thesis by (simp add: out_def)
    qed
    finally show ?thesis using True by (simp add: out_def) linarith
  next
    case False
    then have "out' ! i = 0" using that len by (auto simp: out'_def nth_append split: if_splits)
    moreover have "\<not> nat l + i < length zb" using False that by (simp add: out_def cnt)
    ultimately show ?thesis by simp
  qed
  have eq: "out' = bytes_at (bytes_value zb) (8 * nat l) (nat (r - l))"
  proof (rule nth_equalityI)
    show "length out' = length (bytes_at (bytes_value zb) (8 * nat l) (nat (r - l)))"
      by (simp add: len)
  next
    fix i assume "i < length out'"
    then have i: "i < nat (r - l)" by (simp add: len)
    show "out' ! i = bytes_at (bytes_value zb) (8 * nat l) (nat (r - l)) ! i"
    proof (rule bit_word_eqI)
      fix m assume "m < LENGTH(8)"
      then have m: "m < 8" by simp
      have d: "(8 * nat l + 8 * i + m) div 8 = nat l + i" "(8 * nat l + 8 * i + m) mod 8 = m"
        using m by (simp_all only: div8_add2 mod8_add2)
      show "bit (out' ! i) m = bit (bytes_at (bytes_value zb) (8 * nat l) (nat (r - l)) ! i) m"
        using m i by (simp add: nth [OF i] bit_bytes_at bit_bytes_value d)
    qed
  qed
  show ?thesis
    using assms len eq
    by (simp add: get_unsigned_slice_def Let_def py_slice_nonneg out_def [symmetric]
        out'_def [symmetric])
qed

lemma bit_push_byte:
  "bit (push_bit (8 * m) (uint (b :: byte))) n \<longleftrightarrow> n div 8 = m \<and> bit b (n mod 8)"
proof (cases "8 * m \<le> n \<and> n - 8 * m < 8")
  case True
  then have "n div 8 = m \<and> n mod 8 = n - 8 * m" by (simp add: push_byte_arith1)
  with True show ?thesis by (simp add: bit_simps)
next
  case False
  then have "\<not> (8 * m \<le> n \<and> bit b (n - 8 * m))"
    using bit_imp_le_length [of b "n - 8 * m"] by auto
  moreover from False have "n div 8 \<noteq> m" using push_byte_arith2 [of n m] by blast
  ultimately show ?thesis by (auto simp: bit_simps)
qed

lemma fold_or_bytes:
  "m \<le> length x \<Longrightarrow>
   fold (\<lambda>i out. out OR push_bit (i * 8) (uint (x ! i))) [0..<m] 0 = take_bit (8 * m) (bytes_value x)"
proof (induction m)
  case 0
  then show ?case by simp
next
  case (Suc m)
  then have IH: "fold (\<lambda>i out. out OR push_bit (i * 8) (uint (x ! i))) [0..<m] 0
                 = take_bit (8 * m) (bytes_value x)" and m: "m < length x"
    by simp_all
  have "take_bit (8 * m) (bytes_value x) OR push_bit (8 * m) (uint (x ! m))
        = take_bit (8 * Suc m) (bytes_value x)"
  proof (rule bit_eqI)
    fix n
    have a: "n < 8 * m \<longleftrightarrow> n div 8 < m" by (rule lt8_div)
    have b: "n < 8 * Suc m \<longleftrightarrow> n div 8 < Suc m" by (rule lt8_div)
    show "bit (take_bit (8 * m) (bytes_value x) OR push_bit (8 * m) (uint (x ! m))) n
          = bit (take_bit (8 * Suc m) (bytes_value x)) n"
      unfolding bit_or_iff bit_take_bit_iff bit_push_byte bit_bytes_value a b
      using m by (auto simp: less_Suc_eq)
  qed
  then show ?case by (simp add: IH mult.commute)
qed

lemma mask_in_set:
  assumes "1 \<le> r" "r \<le> (8::nat)"
  shows "(2 :: int) ^ r - 1 \<in> {1, 3, 7, 15, 31, 63, 127, 255}"
proof -
  from assms have "r \<in> {1, 2, 3, 4, 5, 6, 7, 8}" by auto
  then show ?thesis by (elim insertE emptyE) simp_all
qed

lemma unsigned_from_bytes_eq:
  assumes w: "1 \<le> w" and len: "(w + 7) div 8 \<le> int (length x)"
  shows "unsigned_from_bytes x w = Inr (take_bit (nat w) (bytes_value x))"
proof -
  define lst where "lst = nat ((w + 7) div 8 - 1)"
  define r where "r = (if w mod 8 \<noteq> 0 then nat (w mod 8) else 8)"
  have nb: "(w + 7) div 8 > 0" using w by linarith
  have r: "1 \<le> r" "r \<le> 8"
    unfolding r_def using msb_bits_bounds [of w] by simp_all
  have wr: "nat w = 8 * lst + r"
    unfolding lst_def r_def using w by (rule ceil8_split)
  have lst: "lst < length x" using len nb unfolding lst_def by linarith
  have mm: "(if w mod 8 \<noteq> 0 then 2 ^ nat (w mod 8) - 1 else 0xFF) = (2 :: int) ^ r - 1"
    by (simp add: r_def)
  have fold: "fold (\<lambda>i out. out OR push_bit (i * 8) (uint (x ! i))) [0..<lst] 0
              = take_bit (8 * lst) (bytes_value x)"
    using lst by (simp add: fold_or_bytes)
  have val: "take_bit (8 * lst) (bytes_value x) OR push_bit (lst * 8) (uint (x ! lst) AND (2 ^ r - 1))
             = take_bit (nat w) (bytes_value x)"
  proof (rule bit_eqI)
    fix n
    have a: "n < 8 * lst \<longleftrightarrow> n div 8 < lst" by (rule lt8_div)
    have b: "n < 8 * lst + r \<longleftrightarrow> n div 8 < lst \<or> (n div 8 = lst \<and> n mod 8 < r)"
      using r(2) by (rule lt8_div_r)
    have c: "uint (x ! lst) AND (2 ^ r - 1) = uint (take_bit r (x ! lst))"
      by (simp add: and_mask_int unsigned_take_bit_eq)
    show "bit (take_bit (8 * lst) (bytes_value x) OR
               push_bit (lst * 8) (uint (x ! lst) AND (2 ^ r - 1))) n
          = bit (take_bit (nat w) (bytes_value x)) n"
      unfolding c mult.commute [of lst 8] bit_or_iff bit_take_bit_iff bit_push_byte bit_bytes_value wr a b
      using lst by auto
  qed
  have bound: "0 \<le> take_bit (nat w) (bytes_value x) \<and> take_bit (nat w) (bytes_value x) < 2 ^ nat w"
    by simp
  show ?thesis
    unfolding unsigned_from_bytes_def Let_def lst_def [symmetric] mm fold val
    using w nb len mask_in_set [OF r] bound by simp
qed

section \<open>Reading bytes at any bit offset\<close>

lemma bytes_at_Suc:
  "bytes_at z p (Suc n) = word_of_int (drop_bit p z) # bytes_at z (p + 8) n"
  unfolding bytes_at_def map_upt_Suc by (simp add: ac_simps)

lemma bytes_at_0 [simp]: "bytes_at z p 0 = []"
  by (simp add: bytes_at_def)

lemma int_255_mask: "(255 :: int) = mask 8"
  by (simp add: mask_eq_exp_minus_1)

lemma unaligned_byte:
  assumes r: "1 \<le> r" "r \<le> 7"
  shows "(word_of_int (drop_bit r (take_bit 8 (drop_bit (8 * j) z))
            OR (push_bit (8 - r) (take_bit 8 (drop_bit (8 * (j + 1)) z)) AND 0xFF)) :: byte)
         = word_of_int (drop_bit (8 * j + r) z)"
proof (rule bit_word_eqI)
  fix m assume "m < LENGTH(8)"
  then have m: "m < 8" by simp
  show "bit (word_of_int (drop_bit r (take_bit 8 (drop_bit (8 * j) z))
            OR (push_bit (8 - r) (take_bit 8 (drop_bit (8 * (j + 1)) z)) AND 0xFF)) :: byte) m
        = bit (word_of_int (drop_bit (8 * j + r) z) :: byte) m"
  proof (cases "r + m < 8")
    case True
    then have "\<not> 8 - r \<le> m" by simp
    with True m show ?thesis
      unfolding int_255_mask by (simp add: bit_simps ac_simps)
  next
    case False
    then have a: "8 - r \<le> m" "m - (8 - r) < 8" using r m by simp_all
    have b: "8 + 8 * j + m - (8 - r) = 8 * j + r + m" using False r by simp
    from False a m show ?thesis
      unfolding int_255_mask by (simp add: bit_simps b)
  qed
qed

lemma des_get_byte_eq:
  "0 \<le> j \<Longrightarrow> indices_fit (des_buf d) j j \<Longrightarrow>
   des_get_byte j d = (Inr (take_bit 8 (drop_bit (8 * nat j) (bytes_value (des_buf d)))), d)"
  by (simp add: des_get_byte_def py_pure_def get_byte_eq)

lemma des_advance_ok [simp]:
  "des_advance n d = (Inr (), d\<lparr>des_bit_offset := des_bit_offset d + n\<rparr>)"
  by (simp add: des_advance_def)

lemma offset_split:
  assumes "0 \<le> (p::int)" "p mod 8 = int r"
  shows "0 \<le> p div 8" "nat p = 8 * nat (p div 8) + r" "nat (p div 8 + 1) = nat (p div 8) + 1"
proof -
  show q: "0 \<le> p div 8" using assms(1) by (simp add: pos_imp_zdiv_nonneg_iff)
  have "p = 8 * (p div 8) + p mod 8" by simp
  then have "p = 8 * (p div 8) + int r" using assms(2) by simp
  then show "nat p = 8 * nat (p div 8) + r" using q by linarith
  show "nat (p div 8 + 1) = nat (p div 8) + 1" using q by linarith
qed

lemma fetch_unaligned_bytes_loop_eq:
  assumes "0 \<le> des_bit_offset d" "des_bit_offset d mod 8 = int r"
    "indices_fit (des_buf d) (des_bit_offset d div 8) (des_bit_offset d div 8 + int n)"
    "1 \<le> r" "r \<le> 7"
  shows "fetch_unaligned_bytes_loop (8 - r) r n d =
           (Inr (bytes_at (bytes_value (des_buf d)) (nat (des_bit_offset d)) n),
            d\<lparr>des_bit_offset := des_bit_offset d + 8 * int n\<rparr>)"
  using assms(1,2,3)
proof (induction n arbitrary: d)
  case 0
  then show ?case by (simp add: py_return_def)
next
  case (Suc n)
  define p where "p = des_bit_offset d"
  define z where "z = bytes_value (des_buf d)"
  define d' where "d' = d\<lparr>des_bit_offset := p + 8\<rparr>"
  note sp = offset_split [OF Suc.prems(1,2) [folded p_def]]
  have fit: "indices_fit (des_buf d) (p div 8) (p div 8 + 1 + int n)"
    using Suc.prems(3) by (simp add: p_def add.assoc)
  have fit0: "indices_fit (des_buf d) (p div 8) (p div 8)"
    and fit1: "indices_fit (des_buf d) (p div 8 + 1) (p div 8 + 1)"
    and fit': "indices_fit (des_buf d) (p div 8 + 1) (p div 8 + 1 + int n)"
    using fit by (rule indices_fit_mono; simp)+
  define a where "a = take_bit 8 (drop_bit (8 * nat (p div 8)) z)"
  define b where "b = take_bit 8 (drop_bit (8 * (nat (p div 8) + 1)) z)"
  have g0: "des_get_byte (des_byte_offset d) d = (Inr a, d)"
    using sp(1) fit0 by (simp add: des_get_byte_eq des_byte_offset_def p_def z_def a_def)
  have g1: "des_get_byte (des_byte_offset d + 1) d = (Inr b, d)"
    using sp(1,3) fit1 by (simp add: des_get_byte_eq des_byte_offset_def p_def z_def b_def)
  have d': "0 \<le> des_bit_offset d'" "des_bit_offset d' mod 8 = int r"
    "indices_fit (des_buf d') (des_bit_offset d' div 8) (des_bit_offset d' div 8 + int n)"
    using Suc.prems(1,2) fit' by (simp_all add: d'_def p_def)
  have IH: "fetch_unaligned_bytes_loop (8 - r) r n d' =
             (Inr (bytes_at z (nat p + 8) n), d\<lparr>des_bit_offset := p + 8 * int (Suc n)\<rparr>)"
    using Suc.IH [OF d'] Suc.prems(1)
    by (simp add: d'_def z_def p_def nat_add_distrib)
  have byte: "(word_of_int (drop_bit r a OR (push_bit (8 - r) b AND 0xFF)) :: byte)
         = word_of_int (drop_bit (nat p) z)"
    unfolding a_def b_def
    using unaligned_byte [OF assms(4,5), of "nat (p div 8)" z] sp(2) by simp
  have adv: "des_advance 8 d = (Inr (), d')"
    by (simp add: d'_def p_def)
  have "fetch_unaligned_bytes_loop (8 - r) r (Suc n) d
        = (Inr (word_of_int (drop_bit r a OR (push_bit (8 - r) b AND 0xFF)) # bytes_at z (nat p + 8) n),
           d\<lparr>des_bit_offset := p + 8 * int (Suc n)\<rparr>)"
    unfolding fetch_unaligned_bytes_loop.simps
    by (simp add: py_then_def py_bind_def g0 g1 adv IH py_return_def del: des_advance_ok)
  then show ?case
    unfolding byte bytes_at_Suc z_def p_def by simp
qed

lemma ceil8_backtrack:
  fixes w :: int
  shows "0 \<le> (w + 7) div 8 * 8 - w \<and> (w + 7) div 8 * 8 - w < 8"
proof -
  define q where "q = (w + 7) div 8"
  define m where "m = (w + 7) mod 8"
  have "w + 7 = 8 * q + m" by (simp add: q_def m_def)
  moreover have "0 \<le> m" "m < 8" by (simp_all add: m_def)
  ultimately show ?thesis unfolding q_def [symmetric] by linarith
qed
lemma ceil8_ge: "(w::int) \<le> 8 * ((w + 7) div 8)"
  using ceil8_backtrack [of w] by linarith
lemma ceil8_nonneg: "0 \<le> (w::int) \<Longrightarrow> 0 \<le> (w + 7) div 8"
  by (simp add: pos_imp_zdiv_nonneg_iff)
lemma ceil8_nat_ge: "0 \<le> (w::int) \<Longrightarrow> nat w \<le> 8 * nat ((w + 7) div 8)"
  using ceil8_ge [of w] ceil8_nonneg [of w] by linarith

lemma ensure_cardinal_ok [simp]: "0 \<le> i \<Longrightarrow> ensure_cardinal i = py_return ()"
  by (simp add: ensure_cardinal_def)

lemma ensure_cardinal_neg [simp]: "i < 0 \<Longrightarrow> ensure_cardinal i = py_raise ValueError"
  by (simp add: ensure_cardinal_def)

lemma des_get_unsigned_slice_eq:
  "0 \<le> l \<Longrightarrow> l \<le> r \<Longrightarrow>
   des_get_unsigned_slice l r d
     = (Inr (bytes_at (bytes_value (des_buf d)) (8 * nat l) (nat (r - l))), d)"
  by (simp add: des_get_unsigned_slice_def py_pure_def get_unsigned_slice_eq)

lemma aligned_offset:
  assumes "0 \<le> (p::int)" "p mod 8 = 0"
  shows "0 \<le> p div 8" "8 * nat (p div 8) = nat p"
proof -
  show q: "0 \<le> p div 8" using assms(1) by (simp add: pos_imp_zdiv_nonneg_iff)
  have "p = 8 * (p div 8) + p mod 8" by simp
  then have "p = 8 * (p div 8)" using assms(2) by simp
  then show "8 * nat (p div 8) = nat p" using q by linarith
qed

lemma fetch_aligned_bytes_eq:
  assumes "0 \<le> des_bit_offset d" "des_bit_offset d mod 8 = 0" "0 \<le> count"
  shows "fetch_aligned_bytes count d =
           (Inr (bytes_at (bytes_value (des_buf d)) (nat (des_bit_offset d)) (nat count)),
            d\<lparr>des_bit_offset := des_bit_offset d + count * 8\<rparr>)"
proof -
  note al = aligned_offset [OF assms(1,2)]
  have sl: "des_get_unsigned_slice (des_byte_offset d) (des_byte_offset d + count) d
            = (Inr (bytes_at (bytes_value (des_buf d)) (nat (des_bit_offset d)) (nat count)), d)"
    using al assms(3) by (simp add: des_get_unsigned_slice_eq des_byte_offset_def)
  show ?thesis
    using assms
    by (simp add: fetch_aligned_bytes_def des_aligned_def py_bind_def py_then_def sl py_return_def
        py_assert_def)
qed

lemma fetch_unaligned_bytes_eq:
  assumes "0 \<le> des_bit_offset d" "0 \<le> count"
    "des_bit_offset d mod 8 = 0 \<or>
     indices_fit (des_buf d) (des_bit_offset d div 8) (des_bit_offset d div 8 + count)"
  shows "fetch_unaligned_bytes count d =
           (Inr (bytes_at (bytes_value (des_buf d)) (nat (des_bit_offset d)) (nat count)),
            d\<lparr>des_bit_offset := des_bit_offset d + count * 8\<rparr>)"
proof (cases "count > 0")
  case False
  with assms have "count = 0" by simp
  then show ?thesis by (simp add: fetch_unaligned_bytes_def)
next
  case pos: True
  show ?thesis
  proof (cases "des_bit_offset d mod 8 = 0")
    case True
    with pos fetch_aligned_bytes_eq [OF assms(1) True assms(2)] show ?thesis
      by (simp add: fetch_unaligned_bytes_def)
  next
    case False
    define r where "r = nat (des_bit_offset d mod 8)"
    have "0 \<le> des_bit_offset d mod 8" "des_bit_offset d mod 8 < 8" by simp_all
    with False have r: "des_bit_offset d mod 8 = int r" "1 \<le> r" "r \<le> 7"
      by (simp_all add: r_def)
    have loop: "fetch_unaligned_bytes_loop (8 - r) r (nat count) d =
           (Inr (bytes_at (bytes_value (des_buf d)) (nat (des_bit_offset d)) (nat count)),
            d\<lparr>des_bit_offset := des_bit_offset d + count * 8\<rparr>)"
      using fetch_unaligned_bytes_loop_eq [OF assms(1) r(1) _ r(2,3), of "nat count"] assms(2,3) False
      by simp
    have l: "1 \<le> 8 - r \<and> 8 - r \<le> 7" using r(2,3) by linarith
    show ?thesis
      using pos False r(2,3) l
      by (simp add: fetch_unaligned_bytes_def Let_def r_def [symmetric] py_bind_def loop
          py_then_def py_assert_def py_return_def)
  qed
qed

lemma take_bit_bytes_at:
  assumes "w \<le> 8 * n"
  shows "take_bit w (bytes_value (bytes_at z p n)) = take_bit w (drop_bit p z)"
  using assms by (simp add: bytes_value_bytes_at min_def)

lemma unsigned_from_bytes_at:
  assumes "1 \<le> w"
  shows "unsigned_from_bytes (bytes_at z p (nat ((w + 7) div 8))) w
         = Inr (take_bit (nat w) (drop_bit p z))"
proof -
  have n: "0 \<le> (w + 7) div 8" using assms by (simp add: ceil8_nonneg)
  have "unsigned_from_bytes (bytes_at z p (nat ((w + 7) div 8))) w
        = Inr (take_bit (nat w) (bytes_value (bytes_at z p (nat ((w + 7) div 8)))))"
    using assms n by (intro unsigned_from_bytes_eq) simp_all
  also have "take_bit (nat w) (bytes_value (bytes_at z p (nat ((w + 7) div 8))))
             = take_bit (nat w) (drop_bit p z)"
    using assms by (intro take_bit_bytes_at ceil8_nat_ge) simp
  finally show ?thesis .
qed

lemma fetch_unaligned_unsigned_eq:
  assumes "0 \<le> des_bit_offset d" "1 \<le> w"
    "des_bit_offset d mod 8 = 0 \<or>
     indices_fit (des_buf d) (des_bit_offset d div 8) (des_bit_offset d div 8 + (w + 7) div 8)"
  shows "fetch_unaligned_unsigned w d =
           (Inr (take_bit (nat w) (drop_bit (nat (des_bit_offset d)) (bytes_value (des_buf d)))),
            d\<lparr>des_bit_offset := des_bit_offset d + w\<rparr>)"
proof -
  define n where "n = (w + 7) div 8"
  have n: "0 \<le> n" using assms(2) by (simp add: n_def ceil8_nonneg)
  have bt: "0 \<le> n * 8 - w \<and> n * 8 - w < 8" unfolding n_def by (rule ceil8_backtrack)
  have f: "fetch_unaligned_bytes n d =
           (Inr (bytes_at (bytes_value (des_buf d)) (nat (des_bit_offset d)) (nat n)),
            d\<lparr>des_bit_offset := des_bit_offset d + n * 8\<rparr>)"
    using assms(1) n assms(3) [folded n_def] by (rule fetch_unaligned_bytes_eq)
  have w0: "0 \<le> w" using assms(2) by simp
  show ?thesis
    using assms(1,2) n bt w0
    by (simp add: fetch_unaligned_unsigned_def Let_def n_def [symmetric] py_bind_def f py_then_def
        py_assert_def py_pure_def py_return_def unsigned_from_bytes_at [OF assms(2), folded n_def])
qed

lemma fetch_aligned_unsigned_eq:
  assumes "0 \<le> des_bit_offset d" "des_bit_offset d mod 8 = 0" "1 \<le> w"
  shows "fetch_aligned_unsigned w d =
           (Inr (take_bit (nat w) (drop_bit (nat (des_bit_offset d)) (bytes_value (des_buf d)))),
            d\<lparr>des_bit_offset := des_bit_offset d + w\<rparr>)"
proof -
  define n where "n = (w + 7) div 8"
  have n: "0 \<le> n" using assms(3) by (simp add: n_def ceil8_nonneg)
  note al = aligned_offset [OF assms(1,2)]
  have sl: "des_get_unsigned_slice (des_byte_offset d) (des_byte_offset d + n) d
            = (Inr (bytes_at (bytes_value (des_buf d)) (nat (des_bit_offset d)) (nat n)), d)"
    using al n by (simp add: des_get_unsigned_slice_eq des_byte_offset_def)
  have w0: "0 \<le> w" using assms(3) by simp
  show ?thesis
    using assms n w0
    by (simp add: fetch_aligned_unsigned_def Let_def n_def [symmetric] des_aligned_def py_bind_def
        sl py_then_def py_assert_def py_pure_def py_return_def unsigned_from_bytes_at [OF assms(3), folded n_def])
qed

section \<open>Fetched unsigned integers are within their width\<close>

lemma unsigned_from_bytes_range:
  assumes "unsigned_from_bytes x w = Inr v"
  shows "0 \<le> v \<and> v < 2 ^ nat w"
proof (cases "1 \<le> w \<and> (w + 7) div 8 \<le> int (length x)")
  case True
  then have "unsigned_from_bytes x w = Inr (take_bit (nat w) (bytes_value x))"
    by (simp add: unsigned_from_bytes_eq)
  with assms have "v = take_bit (nat w) (bytes_value x)" by simp
  then show ?thesis by simp
next
  case False
  then have "unsigned_from_bytes x w = Inl AssertionError"
    by (auto simp: unsigned_from_bytes_def Let_def)
  with assms show ?thesis by simp
qed

lemma fetch_aligned_unsigned_range:
  assumes "fetch_aligned_unsigned w d = (Inr v, d')"
  shows "0 \<le> v \<and> v < 2 ^ nat w"
proof -
  from assms obtain bs where "unsigned_from_bytes bs w = Inr v"
    by (auto simp: fetch_aligned_unsigned_def py_then_def py_bind_def py_pure_def py_assert_def
        ensure_cardinal_def py_raise_def py_return_def des_advance_def des_get_unsigned_slice_def
        split: if_splits sum.splits prod.splits)
  then show ?thesis by (rule unsigned_from_bytes_range)
qed

text \<open>
  What the two fetches return. For every width \<open>w \<ge> 1\<close> and every buffer content,
  \<^verbatim>\<open>fetch_unaligned_unsigned(w)\<close> returns a value in \<open>[0, 2^w)\<close> at every cursor position
  that is byte-aligned or whose byte indices fit the index type of the array; so does
  \<^verbatim>\<open>fetch_aligned_unsigned(w)\<close> at every byte-aligned cursor position, and at any cursor
  position whatsoever a value that it returns lies in \<open>[0, 2^w)\<close>. The value is the \<open>w\<close>
  bits of the zero-extended buffer that start at the cursor: whatever the last byte read
  holds above the requested width is masked off. The cursor advances by \<open>w\<close>.
\<close>

lemma fetch_unsigned_in_range:
  assumes "1 \<le> w" "0 \<le> des_bit_offset d"
  shows "(des_aligned d \<or>
          indices_fit (des_buf d) (des_bit_offset d div 8) (des_bit_offset d div 8 + (w + 7) div 8) \<longrightarrow>
            (\<exists>v. fetch_unaligned_unsigned w d = (Inr v, d\<lparr>des_bit_offset := des_bit_offset d + w\<rparr>) \<and>
                 v = take_bit (nat w) (drop_bit (nat (des_bit_offset d)) (bytes_value (des_buf d))) \<and>
                 0 \<le> v \<and> v < 2 ^ nat w)) \<and>
         (des_aligned d \<longrightarrow>
            (\<exists>v. fetch_aligned_unsigned w d = (Inr v, d\<lparr>des_bit_offset := des_bit_offset d + w\<rparr>) \<and>
                 v = take_bit (nat w) (drop_bit (nat (des_bit_offset d)) (bytes_value (des_buf d))) \<and>
                 0 \<le> v \<and> v < 2 ^ nat w)) \<and>
         (\<forall>v d'. fetch_aligned_unsigned w d = (Inr v, d') \<longrightarrow> 0 \<le> v \<and> v < 2 ^ nat w)"
proof -
  have "\<forall>v d'. fetch_aligned_unsigned w d = (Inr v, d') \<longrightarrow> 0 \<le> v \<and> v < 2 ^ nat w"
    using fetch_aligned_unsigned_range by blast
  then show ?thesis
    using assms
    by (simp add: fetch_aligned_unsigned_eq fetch_unaligned_unsigned_eq des_aligned_def)
qed

lemma fetch_unsigned_in_range_example:
  "(\<exists>v. fetch_aligned_unsigned 12 \<lparr>des_buf = [0xFF, 0xFF, 0xFF], des_bit_offset = 8\<rparr>
           = (Inr v, \<lparr>des_buf = [0xFF, 0xFF, 0xFF], des_bit_offset = 20\<rparr>) \<and> 0 \<le> v \<and> v < 4096) \<and>
   (\<exists>v. fetch_unaligned_unsigned 3 \<lparr>des_buf = [0xFF, 0xFF, 0xFF], des_bit_offset = 7\<rparr>
           = (Inr v, \<lparr>des_buf = [0xFF, 0xFF, 0xFF], des_bit_offset = 10\<rparr>) \<and> 0 \<le> v \<and> v < 8)"
  using fetch_unsigned_in_range [of 12 "\<lparr>des_buf = [0xFF, 0xFF, 0xFF], des_bit_offset = 8\<rparr>"]
    fetch_unsigned_in_range [of 3 "\<lparr>des_buf = [0xFF, 0xFF, 0xFF], des_bit_offset = 7\<rparr>"]
  by (simp add: des_aligned_def indices_fit_def NPY_MAX_INTP_def)

text \<open>
  Claim C10. The claim is that every cursor position gives a value in \<open>[0, 2^w)\<close>. At an
  unaligned cursor whose byte index is from \<open>2^63\<close> up to \<open>2^64 - 1\<close> the code returns no
  value: \<^verbatim>\<open>fetch_unaligned_bytes\<close> reads through \<^verbatim>\<open>get_byte\<close>, the index overflows the
  index type of the array, and the handler of \<^verbatim>\<open>get_byte\<close>, which catches
  \<^verbatim>\<open>IndexError\<close>, lets the \<^verbatim>\<open>OverflowError\<close> through. So \<^verbatim>\<open>fetch_unaligned_unsigned(3)\<close>
  over the single byte \<open>FF\<close> raises \<^verbatim>\<open>OverflowError\<close> at cursor \<open>2^66 + 1\<close>, while at the
  aligned cursor \<open>2^66\<close>, where the same call reads through a slice, it returns 0.
\<close>

theorem fetch_unaligned_unsigned_overflow:
  "fetch_unaligned_unsigned 3 \<lparr>des_buf = [0xFF], des_bit_offset = 2 ^ 66 + 1\<rparr>
     = (Inl OverflowError, \<lparr>des_buf = [0xFF], des_bit_offset = 2 ^ 66 + 1\<rparr>) \<and>
   fetch_unaligned_unsigned 3 \<lparr>des_buf = [0xFF], des_bit_offset = 2 ^ 66\<rparr>
     = (Inr 0, \<lparr>des_buf = [0xFF], des_bit_offset = 2 ^ 66 + 3\<rparr>)"
  by (simp add: fetch_unaligned_unsigned_def fetch_unaligned_bytes_def fetch_aligned_bytes_def Let_def
      py_then_def py_bind_def py_assert_def py_return_def py_raise_def ensure_cardinal_def
      des_aligned_def des_advance_def des_get_unsigned_slice_def get_unsigned_slice_def
      py_slice_def py_clip_def unsigned_from_bytes_def des_get_byte_def get_byte_def np_index_def
      NPY_MAX_INTP_def des_byte_offset_def py_pure_def del: des_advance_ok)

section \<open>Reading past the end of the input\<close>

lemma drop_bit_bytes_value_past_end:
  assumes "8 * length zb \<le> p"
  shows "drop_bit p (bytes_value zb) = 0"
proof (rule bit_eqI)
  fix n
  have "\<not> (p + n) div 8 < length zb" using assms by (simp add: lt8_div [symmetric])
  then show "bit (drop_bit p (bytes_value zb)) n = bit (0::int) n"
    by (simp add: bit_simps bit_bytes_value)
qed

lemma bytes_at_zero:
  assumes "drop_bit p z = 0"
  shows "bytes_at z p n = replicate n 0"
proof -
  have "drop_bit (p + 8 * i) z = 0" for i
  proof -
    have "drop_bit (p + 8 * i) z = drop_bit (8 * i) (drop_bit p z)"
      by (simp only: drop_bit_drop_bit add.commute)
    then show ?thesis by (simp only: assms drop_bit_of_0)
  qed
  then show ?thesis by (simp add: bytes_at_def map_replicate_const)
qed

lemma past_end_offset:
  assumes "remaining_bit_length d \<le> 0"
  shows "0 \<le> des_bit_offset d" "8 * length (des_buf d) \<le> nat (des_bit_offset d)"
    "drop_bit (nat (des_bit_offset d)) (bytes_value (des_buf d)) = 0"
proof -
  have le: "8 * int (length (des_buf d)) \<le> des_bit_offset d"
    using assms by (simp add: remaining_bit_length_def ZeroExtendingBuffer_bit_length_def)
  then show "0 \<le> des_bit_offset d" by linarith
  from le show l: "8 * length (des_buf d) \<le> nat (des_bit_offset d)" by linarith
  then show "drop_bit (nat (des_bit_offset d)) (bytes_value (des_buf d)) = 0"
    by (rule drop_bit_bytes_value_past_end)
qed

lemma past_end_bytes_at:
  "remaining_bit_length d \<le> 0 \<Longrightarrow>
   bytes_at (bytes_value (des_buf d)) (nat (des_bit_offset d)) n = replicate n 0"
  by (rule bytes_at_zero) (rule past_end_offset)

lemma fetch_aligned_bytes_past_end:
  assumes "remaining_bit_length d \<le> 0" "des_aligned d" "0 \<le> count"
  shows "fetch_aligned_bytes count d
         = (Inr (replicate (nat count) 0), d\<lparr>des_bit_offset := des_bit_offset d + count * 8\<rparr>)"
  using assms fetch_aligned_bytes_eq [of d count] past_end_offset(1) [of d]
  by (simp add: des_aligned_def past_end_bytes_at)

lemma fetch_unaligned_bytes_past_end:
  assumes "remaining_bit_length d \<le> 0" "0 \<le> count"
    "indices_fit (des_buf d) (des_bit_offset d div 8) (des_bit_offset d div 8 + count)"
  shows "fetch_unaligned_bytes count d
         = (Inr (replicate (nat count) 0), d\<lparr>des_bit_offset := des_bit_offset d + count * 8\<rparr>)"
  using assms fetch_unaligned_bytes_eq [of d count] past_end_offset(1) [of d]
  by (simp add: past_end_bytes_at)

lemma unpackbits_little_zero: "unpackbits_little (replicate n 0) = replicate (8 * n) False"
proof (induction n)
  case 0
  then show ?case by (simp add: unpackbits_little_def)
next
  case (Suc n)
  have "map (bit (0 :: byte)) [0..<8] = map (\<lambda>_. False) [0..<8]"
    by (rule map_cong) simp_all
  then have "map (bit (0 :: byte)) [0..<8] = replicate 8 False"
    by (simp only: map_replicate_const length_upt) simp
  with Suc show ?case
    by (simp add: unpackbits_little_def replicate_add [symmetric] del: replicate_add)
qed

lemma bits_slice_zero:
  assumes "0 \<le> count"
  shows "py_slice_to (unpackbits_little (replicate (nat ((count + 7) div 8)) 0)) count
         = replicate (nat count) False"
proof -
  have "nat count \<le> 8 * nat ((count + 7) div 8)" using assms by (rule ceil8_nat_ge)
  then show ?thesis
    using assms by (simp add: unpackbits_little_zero py_slice_to_take min_def)
qed

lemma fetch_aligned_array_of_bits_past_end:
  assumes "remaining_bit_length d \<le> 0" "des_aligned d" "0 \<le> count"
  shows "fetch_aligned_array_of_bits count d
         = (Inr (replicate (nat count) False), d\<lparr>des_bit_offset := des_bit_offset d + count\<rparr>)"
proof -
  define n where "n = (count + 7) div 8"
  have n: "0 \<le> n" using assms(3) by (simp add: n_def ceil8_nonneg)
  note pe = past_end_offset [OF assms(1)]
  note al = aligned_offset [OF pe(1) assms(2) [unfolded des_aligned_def]]
  have sl: "des_get_unsigned_slice (des_byte_offset d) (des_byte_offset d + n) d
            = (Inr (replicate (nat n) 0), d)"
    using al n by (simp add: des_get_unsigned_slice_eq des_byte_offset_def
        past_end_bytes_at [OF assms(1)])
  show ?thesis
    using assms(2,3) bits_slice_zero [OF assms(3)]
    by (simp add: fetch_aligned_array_of_bits_def n_def [symmetric] py_then_def py_bind_def
        py_return_def py_assert_def sl Let_def)
qed

lemma fetch_unaligned_array_of_bits_past_end:
  assumes "remaining_bit_length d \<le> 0" "0 \<le> count"
    "indices_fit (des_buf d) (des_bit_offset d div 8) (des_bit_offset d div 8 + (count + 7) div 8)"
  shows "fetch_unaligned_array_of_bits count d
         = (Inr (replicate (nat count) False), d\<lparr>des_bit_offset := des_bit_offset d + count\<rparr>)"
proof -
  define n where "n = (count + 7) div 8"
  have n: "0 \<le> n" using assms(2) by (simp add: n_def ceil8_nonneg)
  have bt: "0 \<le> n * 8 - count \<and> n * 8 - count < 8" unfolding n_def by (rule ceil8_backtrack)
  have f: "fetch_unaligned_bytes n d
           = (Inr (replicate (nat n) 0), d\<lparr>des_bit_offset := des_bit_offset d + n * 8\<rparr>)"
    using assms(1) n assms(3) [folded n_def] by (rule fetch_unaligned_bytes_past_end)
  show ?thesis
    using assms(2) n bt bits_slice_zero [OF assms(2)]
    by (simp add: fetch_unaligned_array_of_bits_def n_def [symmetric] py_then_def py_bind_def
        py_return_def py_assert_def f Let_def)
qed

lemma fit_step:
  assumes "indices_fit (des_buf d) (des_bit_offset d div 8) (des_bit_offset d div 8 + m)"
    "k = 8 * a" "0 \<le> a" "a + b \<le> m"
  shows "indices_fit (des_buf (d\<lparr>des_bit_offset := des_bit_offset d + k\<rparr>))
           (des_bit_offset (d\<lparr>des_bit_offset := des_bit_offset d + k\<rparr>) div 8)
           (des_bit_offset (d\<lparr>des_bit_offset := des_bit_offset d + k\<rparr>) div 8 + b)"
proof -
  have "(des_bit_offset d + 8 * a) div 8 = des_bit_offset d div 8 + a" by simp
  with assms(2) have e: "(des_bit_offset d + k) div 8 = des_bit_offset d div 8 + a" by simp
  show ?thesis
    using indices_fit_mono [OF assms(1), of "des_bit_offset d div 8 + a"
        "des_bit_offset d div 8 + a + b"] assms(3,4)
    by (simp add: e)
qed

lemma fetch_aligned_u8_past_end:
  assumes "remaining_bit_length d \<le> 0" "des_aligned d"
    "indices_fit (des_buf d) (des_bit_offset d div 8) (des_bit_offset d div 8 + m)" "0 \<le> m"
  shows "fetch_aligned_u8 d = (Inr 0, d\<lparr>des_bit_offset := des_bit_offset d + 8\<rparr>)"
proof -
  have "8 * int (length (des_buf d)) \<le> des_bit_offset d"
    using assms(1) by (simp add: remaining_bit_length_def ZeroExtendingBuffer_bit_length_def)
  then have "int (length (des_buf d)) \<le> des_byte_offset d"
    unfolding des_byte_offset_def by linarith
  moreover have "indices_fit (des_buf d) (des_byte_offset d) (des_byte_offset d)"
    unfolding des_byte_offset_def using assms(3) by (rule indices_fit_mono) (use assms(4) in simp_all)
  ultimately have "des_get_byte (des_byte_offset d) d = (Inr 0, d)"
    by (simp add: des_get_byte_def py_pure_def get_byte_past_end)
  then show ?thesis
    using assms(2)
    by (simp add: fetch_aligned_u8_def py_then_def py_bind_def py_assert_def py_return_def)
qed

lemma past_end_step:
  assumes "remaining_bit_length d \<le> 0" "des_aligned d" "0 \<le> n" "n mod 8 = 0"
  shows "remaining_bit_length (d\<lparr>des_bit_offset := des_bit_offset d + n\<rparr>) \<le> 0"
    "des_aligned (d\<lparr>des_bit_offset := des_bit_offset d + n\<rparr>)"
  using assms by (simp_all add: remaining_bit_length_def des_aligned_def mod_add_eq [symmetric]
      del: mod_add_eq)

lemma fetch_aligned_u16_past_end:
  assumes "remaining_bit_length d \<le> 0" "des_aligned d"
    "indices_fit (des_buf d) (des_bit_offset d div 8) (des_bit_offset d div 8 + m)" "1 \<le> m"
  shows "fetch_aligned_u16 d = (Inr 0, d\<lparr>des_bit_offset := des_bit_offset d + 16\<rparr>)"
proof -
  note s1 = past_end_step [OF assms(1,2), of 8, simplified]
  have m: "0 \<le> m" using assms(4) by simp
  have f1: "indices_fit (des_buf (d\<lparr>des_bit_offset := des_bit_offset d + 8\<rparr>))
           (des_bit_offset (d\<lparr>des_bit_offset := des_bit_offset d + 8\<rparr>) div 8)
           (des_bit_offset (d\<lparr>des_bit_offset := des_bit_offset d + 8\<rparr>) div 8 + 0)"
    using assms(3) by (rule fit_step [where a = 1]) (use assms(4) in simp_all)
  show ?thesis
    by (simp add: fetch_aligned_u16_def py_bind_def py_return_def
        fetch_aligned_u8_past_end [OF assms(1,2,3) m] fetch_aligned_u8_past_end [OF s1 f1])
qed

lemma fetch_aligned_u32_past_end:
  assumes "remaining_bit_length d \<le> 0" "des_aligned d"
    "indices_fit (des_buf d) (des_bit_offset d div 8) (des_bit_offset d div 8 + m)" "3 \<le> m"
  shows "fetch_aligned_u32 d = (Inr 0, d\<lparr>des_bit_offset := des_bit_offset d + 32\<rparr>)"
proof -
  note s1 = past_end_step [OF assms(1,2), of 16, simplified]
  have m: "1 \<le> m" using assms(4) by simp
  have f1: "indices_fit (des_buf (d\<lparr>des_bit_offset := des_bit_offset d + 16\<rparr>))
           (des_bit_offset (d\<lparr>des_bit_offset := des_bit_offset d + 16\<rparr>) div 8)
           (des_bit_offset (d\<lparr>des_bit_offset := des_bit_offset d + 16\<rparr>) div 8 + 1)"
    using assms(3) by (rule fit_step [where a = 2]) (use assms(4) in simp_all)
  show ?thesis
    by (simp add: fetch_aligned_u32_def py_bind_def py_return_def
        fetch_aligned_u16_past_end [OF assms(1,2,3) m] fetch_aligned_u16_past_end [OF s1 f1])
qed

lemma fetch_aligned_u64_past_end:
  assumes "remaining_bit_length d \<le> 0" "des_aligned d"
    "indices_fit (des_buf d) (des_bit_offset d div 8) (des_bit_offset d div 8 + m)" "7 \<le> m"
  shows "fetch_aligned_u64 d = (Inr 0, d\<lparr>des_bit_offset := des_bit_offset d + 64\<rparr>)"
proof -
  note s1 = past_end_step [OF assms(1,2), of 32, simplified]
  have m: "3 \<le> m" using assms(4) by simp
  have f1: "indices_fit (des_buf (d\<lparr>des_bit_offset := des_bit_offset d + 32\<rparr>))
           (des_bit_offset (d\<lparr>des_bit_offset := des_bit_offset d + 32\<rparr>) div 8)
           (des_bit_offset (d\<lparr>des_bit_offset := des_bit_offset d + 32\<rparr>) div 8 + 3)"
    using assms(3) by (rule fit_step [where a = 4]) (use assms(4) in simp_all)
  show ?thesis
    by (simp add: fetch_aligned_u64_def py_bind_def py_return_def
        fetch_aligned_u32_past_end [OF assms(1,2,3) m] fetch_aligned_u32_past_end [OF s1 f1])
qed

lemma fetch_aligned_signed_std_past_end:
  assumes "remaining_bit_length d \<le> 0" "des_aligned d"
    "indices_fit (des_buf d) (des_bit_offset d div 8) (des_bit_offset d div 8 + m)" "7 \<le> m"
  shows "fetch_aligned_i8 d = (Inr 0, d\<lparr>des_bit_offset := des_bit_offset d + 8\<rparr>)"
    "fetch_aligned_i16 d = (Inr 0, d\<lparr>des_bit_offset := des_bit_offset d + 16\<rparr>)"
    "fetch_aligned_i32 d = (Inr 0, d\<lparr>des_bit_offset := des_bit_offset d + 32\<rparr>)"
    "fetch_aligned_i64 d = (Inr 0, d\<lparr>des_bit_offset := des_bit_offset d + 64\<rparr>)"
proof -
  have m: "0 \<le> m" "1 \<le> m" "3 \<le> m" using assms(4) by simp_all
  show "fetch_aligned_i8 d = (Inr 0, d\<lparr>des_bit_offset := des_bit_offset d + 8\<rparr>)"
    by (simp add: fetch_aligned_i8_def py_bind_def py_return_def
        fetch_aligned_u8_past_end [OF assms(1,2,3) m(1)])
  show "fetch_aligned_i16 d = (Inr 0, d\<lparr>des_bit_offset := des_bit_offset d + 16\<rparr>)"
    by (simp add: fetch_aligned_i16_def py_bind_def py_return_def
        fetch_aligned_u16_past_end [OF assms(1,2,3) m(2)])
  show "fetch_aligned_i32 d = (Inr 0, d\<lparr>des_bit_offset := des_bit_offset d + 32\<rparr>)"
    by (simp add: fetch_aligned_i32_def py_bind_def py_return_def
        fetch_aligned_u32_past_end [OF assms(1,2,3) m(3)])
  show "fetch_aligned_i64 d = (Inr 0, d\<lparr>des_bit_offset := des_bit_offset d + 64\<rparr>)"
    by (simp add: fetch_aligned_i64_def py_bind_def py_return_def
        fetch_aligned_u64_past_end [OF assms])
qed

lemma fetch_aligned_float_past_end:
  assumes "remaining_bit_length d \<le> 0" "des_aligned d"
  shows "fetch_aligned_f16 unpack d
           = (Inr (unpack ''<e'' (replicate 2 0)), d\<lparr>des_bit_offset := des_bit_offset d + 16\<rparr>)"
    "fetch_aligned_f32 unpack d
           = (Inr (unpack ''<f'' (replicate 4 0)), d\<lparr>des_bit_offset := des_bit_offset d + 32\<rparr>)"
    "fetch_aligned_f64 unpack d
           = (Inr (unpack ''<d'' (replicate 8 0)), d\<lparr>des_bit_offset := des_bit_offset d + 64\<rparr>)"
  using fetch_aligned_bytes_past_end [OF assms, of 2] fetch_aligned_bytes_past_end [OF assms, of 4]
    fetch_aligned_bytes_past_end [OF assms, of 8]
  by (simp_all add: fetch_aligned_f16_def fetch_aligned_f32_def fetch_aligned_f64_def
      py_bind_def py_return_def)

lemma fetch_unaligned_float_past_end:
  assumes "remaining_bit_length d \<le> 0"
    "indices_fit (des_buf d) (des_bit_offset d div 8) (des_bit_offset d div 8 + m)" "8 \<le> m"
  shows "fetch_unaligned_f16 unpack d
           = (Inr (unpack ''<e'' (replicate 2 0)), d\<lparr>des_bit_offset := des_bit_offset d + 16\<rparr>)"
    "fetch_unaligned_f32 unpack d
           = (Inr (unpack ''<f'' (replicate 4 0)), d\<lparr>des_bit_offset := des_bit_offset d + 32\<rparr>)"
    "fetch_unaligned_f64 unpack d
           = (Inr (unpack ''<d'' (replicate 8 0)), d\<lparr>des_bit_offset := des_bit_offset d + 64\<rparr>)"
proof -
  have f: "indices_fit (des_buf d) (des_bit_offset d div 8) (des_bit_offset d div 8 + c)"
    if "c \<le> m" for c
    using assms(2) by (rule indices_fit_mono) (use that in simp_all)
  show "fetch_unaligned_f16 unpack d
           = (Inr (unpack ''<e'' (replicate 2 0)), d\<lparr>des_bit_offset := des_bit_offset d + 16\<rparr>)"
    using fetch_unaligned_bytes_past_end [OF assms(1) _ f, of 2] assms(3)
    by (simp add: fetch_unaligned_f16_def py_bind_def py_return_def)
  show "fetch_unaligned_f32 unpack d
           = (Inr (unpack ''<f'' (replicate 4 0)), d\<lparr>des_bit_offset := des_bit_offset d + 32\<rparr>)"
    using fetch_unaligned_bytes_past_end [OF assms(1) _ f, of 4] assms(3)
    by (simp add: fetch_unaligned_f32_def py_bind_def py_return_def)
  show "fetch_unaligned_f64 unpack d
           = (Inr (unpack ''<d'' (replicate 8 0)), d\<lparr>des_bit_offset := des_bit_offset d + 64\<rparr>)"
    using fetch_unaligned_bytes_past_end [OF assms(1) _ f, of 8] assms(3)
    by (simp add: fetch_unaligned_f64_def py_bind_def py_return_def)
qed

lemma fetch_aligned_unsigned_past_end:
  assumes "remaining_bit_length d \<le> 0" "des_aligned d" "1 \<le> w"
  shows "fetch_aligned_unsigned w d = (Inr 0, d\<lparr>des_bit_offset := des_bit_offset d + w\<rparr>)"
  using fetch_aligned_unsigned_eq [of d w] assms past_end_offset [OF assms(1)]
  by (simp add: des_aligned_def)

lemma fetch_unaligned_unsigned_past_end:
  assumes "remaining_bit_length d \<le> 0" "1 \<le> w"
    "indices_fit (des_buf d) (des_bit_offset d div 8) (des_bit_offset d div 8 + (w + 7) div 8)"
  shows "fetch_unaligned_unsigned w d = (Inr 0, d\<lparr>des_bit_offset := des_bit_offset d + w\<rparr>)"
  using fetch_unaligned_unsigned_eq [of d w] assms past_end_offset [OF assms(1)]
  by simp

lemma fetch_aligned_signed_past_end:
  assumes "remaining_bit_length d \<le> 0" "des_aligned d" "2 \<le> w"
  shows "fetch_aligned_signed w d = (Inr 0, d\<lparr>des_bit_offset := des_bit_offset d + w\<rparr>)"
proof -
  have "1 \<le> w" using assms(3) by simp
  from fetch_aligned_unsigned_past_end [OF assms(1,2) this] assms(3) show ?thesis
    by (simp add: fetch_aligned_signed_def py_bind_def py_return_def)
qed

lemma fetch_unaligned_signed_past_end:
  assumes "remaining_bit_length d \<le> 0" "2 \<le> w"
    "indices_fit (des_buf d) (des_bit_offset d div 8) (des_bit_offset d div 8 + (w + 7) div 8)"
  shows "fetch_unaligned_signed w d = (Inr 0, d\<lparr>des_bit_offset := des_bit_offset d + w\<rparr>)"
proof -
  have "1 \<le> w" using assms(2) by simp
  from fetch_unaligned_unsigned_past_end [OF assms(1) this assms(3)] assms(2) show ?thesis
    by (simp add: fetch_unaligned_signed_def py_bind_def py_return_def)
qed

lemma bit_mask_bounds:
  "1 \<le> push_bit (nat (p mod 8)) (1 :: int) \<and> push_bit (nat ((p :: int) mod 8)) (1 :: int) \<le> 128"
proof -
  define k where "k = nat (p mod 8)"
  have "0 \<le> p mod 8" "p mod 8 < 8" by simp_all
  then have "k \<le> 7" by (simp add: k_def)
  then have "(2 :: int) ^ k \<le> 2 ^ 7" by (intro power_increasing) simp_all
  then show ?thesis unfolding k_def [symmetric] by (simp add: push_bit_eq_mult)
qed

lemma fetch_unaligned_bit_past_end:
  assumes "remaining_bit_length d \<le> 0"
    "indices_fit (des_buf d) (des_bit_offset d div 8) (des_bit_offset d div 8 + m)" "0 \<le> m"
  shows "fetch_unaligned_bit d = (Inr False, d\<lparr>des_bit_offset := des_bit_offset d + 1\<rparr>)"
proof -
  have "8 * int (length (des_buf d)) \<le> des_bit_offset d"
    using assms(1) by (simp add: remaining_bit_length_def ZeroExtendingBuffer_bit_length_def)
  then have "int (length (des_buf d)) \<le> des_byte_offset d"
    unfolding des_byte_offset_def by linarith
  moreover have "indices_fit (des_buf d) (des_byte_offset d) (des_byte_offset d)"
    unfolding des_byte_offset_def using assms(2) by (rule indices_fit_mono) (use assms(3) in simp_all)
  ultimately have g: "des_get_byte (des_byte_offset d) d = (Inr 0, d)"
    by (simp add: des_get_byte_def py_pure_def get_byte_past_end)
  have m: "1 \<le> push_bit (nat (des_bit_offset d mod 8)) (1 :: int) \<and>
           push_bit (nat (des_bit_offset d mod 8)) (1 :: int) \<le> 128"
    by (rule bit_mask_bounds)
  then have "(0 :: int) \<noteq> push_bit (nat (des_bit_offset d mod 8)) 1" by linarith
  with m show ?thesis
    by (simp add: fetch_unaligned_bit_def Let_def py_bind_def g py_then_def py_return_def)
qed

lemma fetch_aligned_array_of_primitives_past_end:
  assumes "remaining_bit_length d \<le> 0" "des_aligned d" "0 \<le> count" "1 \<le> itemsize"
  shows "fetch_aligned_array_of_standard_bit_length_primitives itemsize count d
         = (Inr (replicate (nat (count * itemsize)) 0),
            d\<lparr>des_bit_offset := des_bit_offset d + count * itemsize * 8\<rparr>)"
proof -
  have n: "0 \<le> count * itemsize" using assms(3,4) by simp
  note pe = past_end_offset [OF assms(1)]
  note al = aligned_offset [OF pe(1) assms(2) [unfolded des_aligned_def]]
  have sl: "des_get_unsigned_slice (des_byte_offset d) (des_byte_offset d + count * itemsize) d
            = (Inr (replicate (nat (count * itemsize)) 0), d)"
    using al n by (simp add: des_get_unsigned_slice_eq des_byte_offset_def
        past_end_bytes_at [OF assms(1)])
  show ?thesis
    using assms(2,4) n
    by (simp add: fetch_aligned_array_of_standard_bit_length_primitives_def py_then_def py_bind_def
        py_return_def py_assert_def sl)
qed

lemma fetch_unaligned_array_of_primitives_past_end:
  assumes "remaining_bit_length d \<le> 0" "0 \<le> count" "1 \<le> itemsize"
    "indices_fit (des_buf d) (des_bit_offset d div 8) (des_bit_offset d div 8 + itemsize * count)"
  shows "fetch_unaligned_array_of_standard_bit_length_primitives itemsize count d
         = (Inr (replicate (nat (count * itemsize)) 0),
            d\<lparr>des_bit_offset := des_bit_offset d + count * itemsize * 8\<rparr>)"
proof -
  have n: "0 \<le> itemsize * count" using assms(2,3) by simp
  have ge: "count \<le> itemsize * count" using assms(2,3) by (simp add: mult_le_cancel_right1)
  from fetch_unaligned_bytes_past_end [OF assms(1) n assms(4)] n ge show ?thesis
    by (simp add: fetch_unaligned_array_of_standard_bit_length_primitives_def py_then_def py_bind_def
        py_return_def py_assert_def py_slice_to_take mult.commute)
qed

text \<open>
  Zero extension, operation by operation. Take a deserializer with
  \<open>remaining_bit_length \<le> 0\<close>: the cursor is at or past the end of the input, whatever its
  length, and let the byte indices that the calls read fit the index type of the array.
  Every fetch operation, called with arguments it accepts (a count \<open>\<ge> 0\<close>, a width
  \<open>\<ge> 1\<close>, a signed width \<open>\<ge> 2\<close>, an item size \<open>\<ge> 1\<close>; a byte-aligned cursor for the
  aligned operations), raises nothing and returns the zero value of its type: 0 for the
  integers, all-false for the bit arrays, all-zero bytes for the byte and primitive arrays,
  and for the floats what \<^verbatim>\<open>struct.unpack\<close> gives on all-zero bytes (+0.0 in IEEE 754).
  The cursor advances by the width read, so \<open>remaining_bit_length\<close> decreases by that width
  and stays \<open>\<le> 0\<close>.
\<close>

lemma fetch_past_end_zero:
  assumes pe: "remaining_bit_length d \<le> 0"
    and args: "0 \<le> count" "1 \<le> w" "2 \<le> sw" "1 \<le> itemsize"
    and below: "des_bit_offset d div 8 + (8 + count * itemsize + w + sw) \<le> NPY_MAX_INTP"
  shows
   "(des_aligned d \<longrightarrow>
       fetch_aligned_array_of_bits count d
         = (Inr (replicate (nat count) False), d\<lparr>des_bit_offset := des_bit_offset d + count\<rparr>) \<and>
       fetch_aligned_bytes count d
         = (Inr (replicate (nat count) 0), d\<lparr>des_bit_offset := des_bit_offset d + count * 8\<rparr>) \<and>
       fetch_aligned_u8 d = (Inr 0, d\<lparr>des_bit_offset := des_bit_offset d + 8\<rparr>) \<and>
       fetch_aligned_u16 d = (Inr 0, d\<lparr>des_bit_offset := des_bit_offset d + 16\<rparr>) \<and>
       fetch_aligned_u32 d = (Inr 0, d\<lparr>des_bit_offset := des_bit_offset d + 32\<rparr>) \<and>
       fetch_aligned_u64 d = (Inr 0, d\<lparr>des_bit_offset := des_bit_offset d + 64\<rparr>) \<and>
       fetch_aligned_i8 d = (Inr 0, d\<lparr>des_bit_offset := des_bit_offset d + 8\<rparr>) \<and>
       fetch_aligned_i16 d = (Inr 0, d\<lparr>des_bit_offset := des_bit_offset d + 16\<rparr>) \<and>
       fetch_aligned_i32 d = (Inr 0, d\<lparr>des_bit_offset := des_bit_offset d + 32\<rparr>) \<and>
       fetch_aligned_i64 d = (Inr 0, d\<lparr>des_bit_offset := des_bit_offset d + 64\<rparr>) \<and>
       fetch_aligned_f16 unpack d
         = (Inr (unpack ''<e'' (replicate 2 0)), d\<lparr>des_bit_offset := des_bit_offset d + 16\<rparr>) \<and>
       fetch_aligned_f32 unpack d
         = (Inr (unpack ''<f'' (replicate 4 0)), d\<lparr>des_bit_offset := des_bit_offset d + 32\<rparr>) \<and>
       fetch_aligned_f64 unpack d
         = (Inr (unpack ''<d'' (replicate 8 0)), d\<lparr>des_bit_offset := des_bit_offset d + 64\<rparr>) \<and>
       fetch_aligned_unsigned w d = (Inr 0, d\<lparr>des_bit_offset := des_bit_offset d + w\<rparr>) \<and>
       fetch_aligned_signed sw d = (Inr 0, d\<lparr>des_bit_offset := des_bit_offset d + sw\<rparr>) \<and>
       fetch_aligned_array_of_standard_bit_length_primitives itemsize count d
         = (Inr (replicate (nat (count * itemsize)) 0),
            d\<lparr>des_bit_offset := des_bit_offset d + count * itemsize * 8\<rparr>)) \<and>
    fetch_unaligned_array_of_bits count d
      = (Inr (replicate (nat count) False), d\<lparr>des_bit_offset := des_bit_offset d + count\<rparr>) \<and>
    fetch_unaligned_bytes count d
      = (Inr (replicate (nat count) 0), d\<lparr>des_bit_offset := des_bit_offset d + count * 8\<rparr>) \<and>
    fetch_unaligned_unsigned w d = (Inr 0, d\<lparr>des_bit_offset := des_bit_offset d + w\<rparr>) \<and>
    fetch_unaligned_signed sw d = (Inr 0, d\<lparr>des_bit_offset := des_bit_offset d + sw\<rparr>) \<and>
    fetch_unaligned_f16 unpack d
      = (Inr (unpack ''<e'' (replicate 2 0)), d\<lparr>des_bit_offset := des_bit_offset d + 16\<rparr>) \<and>
    fetch_unaligned_f32 unpack d
      = (Inr (unpack ''<f'' (replicate 4 0)), d\<lparr>des_bit_offset := des_bit_offset d + 32\<rparr>) \<and>
    fetch_unaligned_f64 unpack d
      = (Inr (unpack ''<d'' (replicate 8 0)), d\<lparr>des_bit_offset := des_bit_offset d + 64\<rparr>) \<and>
    fetch_unaligned_bit d = (Inr False, d\<lparr>des_bit_offset := des_bit_offset d + 1\<rparr>) \<and>
    fetch_unaligned_array_of_standard_bit_length_primitives itemsize count d
      = (Inr (replicate (nat (count * itemsize)) 0),
         d\<lparr>des_bit_offset := des_bit_offset d + count * itemsize * 8\<rparr>) \<and>
    (\<forall>n. remaining_bit_length (d\<lparr>des_bit_offset := des_bit_offset d + n\<rparr>)
           = remaining_bit_length d - n)"
proof -
  have ci: "count \<le> count * itemsize" using args(1,4) by (simp add: mult_le_cancel_left1)
  have cw: "(w + 7) div 8 \<le> w" using ceil8_backtrack [of w] args(2) by linarith
  have csw: "(sw + 7) div 8 \<le> sw" using ceil8_backtrack [of sw] args(3) by linarith
  have cc: "(count + 7) div 8 \<le> count + 1" using ceil8_backtrack [of count] args(1) by linarith
  have fit: "indices_fit (des_buf d) (des_bit_offset d div 8) (des_bit_offset d div 8 + c)"
    if "c \<le> 8 + count * itemsize + w + sw" for c
    using below that by (intro indices_fit_below) linarith
  have f0: "indices_fit (des_buf d) (des_bit_offset d div 8) (des_bit_offset d div 8 + 0)"
    and f7: "indices_fit (des_buf d) (des_bit_offset d div 8) (des_bit_offset d div 8 + 7)"
    and f8: "indices_fit (des_buf d) (des_bit_offset d div 8) (des_bit_offset d div 8 + 8)"
    by (rule fit; use ci args in linarith)+
  have fc: "indices_fit (des_buf d) (des_bit_offset d div 8) (des_bit_offset d div 8 + count)"
    and fb: "indices_fit (des_buf d) (des_bit_offset d div 8) (des_bit_offset d div 8 + (count + 7) div 8)"
    and fw: "indices_fit (des_buf d) (des_bit_offset d div 8) (des_bit_offset d div 8 + (w + 7) div 8)"
    and fsw: "indices_fit (des_buf d) (des_bit_offset d div 8) (des_bit_offset d div 8 + (sw + 7) div 8)"
    by (rule fit; use ci cw csw cc args in linarith)+
  have fp: "indices_fit (des_buf d) (des_bit_offset d div 8) (des_bit_offset d div 8 + itemsize * count)"
    by (rule fit) (use ci args in \<open>simp add: mult.commute\<close>)
  show ?thesis
    using args
    by (intro conjI impI allI)
      (simp_all add: remaining_bit_length_def
        fetch_aligned_array_of_bits_past_end [OF pe] fetch_aligned_bytes_past_end [OF pe]
        fetch_aligned_u8_past_end [OF pe _ f7] fetch_aligned_u16_past_end [OF pe _ f7]
        fetch_aligned_u32_past_end [OF pe _ f7] fetch_aligned_u64_past_end [OF pe _ f7]
        fetch_aligned_signed_std_past_end [OF pe _ f7] fetch_aligned_float_past_end [OF pe]
        fetch_aligned_unsigned_past_end [OF pe] fetch_aligned_signed_past_end [OF pe]
        fetch_aligned_array_of_primitives_past_end [OF pe]
        fetch_unaligned_array_of_bits_past_end [OF pe _ fb]
        fetch_unaligned_bytes_past_end [OF pe _ fc] fetch_unaligned_unsigned_past_end [OF pe _ fw]
        fetch_unaligned_signed_past_end [OF pe _ fsw] fetch_unaligned_float_past_end [OF pe f8]
        fetch_unaligned_bit_past_end [OF pe f0]
        fetch_unaligned_array_of_primitives_past_end [OF pe _ _ fp])
qed

lemma fetch_past_end_zero_example:
  "fetch_aligned_u64 \<lparr>des_buf = [1, 2, 3], des_bit_offset = 24\<rparr>
     = (Inr 0, \<lparr>des_buf = [1, 2, 3], des_bit_offset = 88\<rparr>) \<and>
   fetch_aligned_array_of_bits 100 \<lparr>des_buf = [1, 2, 3], des_bit_offset = 24\<rparr>
     = (Inr (replicate 100 False), \<lparr>des_buf = [1, 2, 3], des_bit_offset = 124\<rparr>) \<and>
   fetch_unaligned_unsigned 5 \<lparr>des_buf = [1, 2, 3], des_bit_offset = 28\<rparr>
     = (Inr 0, \<lparr>des_buf = [1, 2, 3], des_bit_offset = 33\<rparr>) \<and>
   remaining_bit_length \<lparr>des_buf = [1, 2, 3], des_bit_offset = 124\<rparr> = - 100"
  using fetch_past_end_zero [of "\<lparr>des_buf = [1, 2, 3], des_bit_offset = 24\<rparr>" 100 5 2 1]
    fetch_past_end_zero [of "\<lparr>des_buf = [1, 2, 3], des_bit_offset = 28\<rparr>" 100 5 2 1]
  by (simp add: remaining_bit_length_def ZeroExtendingBuffer_bit_length_def des_aligned_def
      NPY_MAX_INTP_def)

text \<open>
  Claim C2. The claim is that every fetch invoked at \<open>remaining_bit_length \<le> 0\<close> returns
  the zero value and raises nothing, and the documentation of \<^verbatim>\<open>ZeroExtendingBuffer\<close>
  says the same (``a read beyond the end of the buffer returns zero bytes'', ``out of range
  access returns zero''). The code does not do so when the byte index is from \<open>2^63\<close> up to
  \<open>2^64 - 1\<close>: the index overflows the index type of the array, and the handler of
  \<^verbatim>\<open>get_byte\<close>, which catches \<^verbatim>\<open>IndexError\<close>, lets the \<^verbatim>\<open>OverflowError\<close> through. Over the
  three bytes \<open>01 02 03\<close> with the cursor at bit \<open>2^66\<close>, \<open>remaining_bit_length\<close> is negative
  and \<^verbatim>\<open>fetch_aligned_u8\<close> raises \<^verbatim>\<open>OverflowError\<close>, while \<^verbatim>\<open>fetch_aligned_unsigned(8)\<close>,
  which reads the same byte through a slice, returns 0.
\<close>

theorem fetch_past_end_overflow:
  "remaining_bit_length \<lparr>des_buf = [1, 2, 3], des_bit_offset = 2 ^ 66\<rparr> \<le> 0 \<and>
   fetch_aligned_u8 \<lparr>des_buf = [1, 2, 3], des_bit_offset = 2 ^ 66\<rparr>
     = (Inl OverflowError, \<lparr>des_buf = [1, 2, 3], des_bit_offset = 2 ^ 66\<rparr>) \<and>
   fetch_aligned_unsigned 8 \<lparr>des_buf = [1, 2, 3], des_bit_offset = 2 ^ 66\<rparr>
     = (Inr 0, \<lparr>des_buf = [1, 2, 3], des_bit_offset = 2 ^ 66 + 8\<rparr>)"
  by (simp add: remaining_bit_length_def ZeroExtendingBuffer_bit_length_def
      fetch_aligned_u8_def fetch_aligned_unsigned_def Let_def
      py_then_def py_bind_def py_assert_def py_return_def py_raise_def ensure_cardinal_def
      des_aligned_def des_advance_def des_get_unsigned_slice_def get_unsigned_slice_def
      py_slice_def py_clip_def unsigned_from_bytes_def des_get_byte_def get_byte_def np_index_def
      NPY_MAX_INTP_def des_byte_offset_def py_pure_def del: des_advance_ok)

section \<open>Writing bytes at any bit offset\<close>

lemma np_index_in_range: "0 \<le> i \<Longrightarrow> i < int (length xs) \<Longrightarrow> np_index xs i = Inr (nat i)"
  by (simp add: np_index_def)

lemma bit_bytes_value_update:
  "bit (bytes_value (xs[i := v])) n \<longleftrightarrow>
     n div 8 < length xs \<and> (if n div 8 = i then bit v (n mod 8) else bit (xs ! (n div 8)) (n mod 8))"
  by (auto simp: bit_bytes_value nth_list_update)

lemma tail_zero_bit:
  assumes "drop_bit p z = 0" "p \<le> n"
  shows "\<not> bit (z :: int) n"
proof -
  have "bit (drop_bit p z) (n - p) = bit z n"
    using assms(2) by (simp add: bit_simps)
  with assms(1) show ?thesis by simp
qed

lemma tail_zero_or:
  assumes "drop_bit p z = 0" "take_bit n v = v"
  shows "drop_bit (p + n) ((z :: int) OR push_bit p v) = 0"
proof (rule bit_eqI)
  fix m
  have a: "\<not> bit z (p + n + m)" using assms(1) by (rule tail_zero_bit) simp
  have "bit v (n + m) = bit (take_bit n v) (n + m)" by (simp only: assms(2))
  then have b: "\<not> bit v (n + m)" by (simp add: bit_simps)
  have c: "p + n + m - p = n + m" by simp
  show "bit (drop_bit (p + n) (z OR push_bit p v)) m = bit (0 :: int) m"
    using a b by (simp add: bit_simps c)
qed

lemma unaligned_store_value:
  assumes k: "k \<le> 7" and i: "Suc i < length xs"
    and tz: "drop_bit (8 * i + k) (bytes_value xs) = 0"
  shows "bytes_value (xs[i := xs ! i OR push_bit k b, Suc i := drop_bit (8 - k) b])
         = bytes_value xs OR push_bit (8 * i + k) (uint b)"
proof (rule bit_eqI)
  fix n
  obtain q t :: nat where n: "n = 8 * q + t" "t < 8" "n div 8 = q" "n mod 8 = t"
    by (rule split8 [of n])
  have len: "length (xs[i := xs ! i OR push_bit k b]) = length xs" by simp
  have L: "bit (bytes_value (xs[i := xs ! i OR push_bit k b, Suc i := drop_bit (8 - k) b])) n
           \<longleftrightarrow> q < length xs \<and>
               (if q = Suc i then bit (drop_bit (8 - k) b) t
                else if q = i then bit (xs ! i OR push_bit k b) t
                else bit (xs ! q) t)"
    unfolding bit_bytes_value_update len n(3,4) by (auto simp: nth_list_update)
  have Z: "bit (bytes_value xs) n \<longleftrightarrow> q < length xs \<and> bit (xs ! q) t"
    by (simp add: bit_bytes_value n(3,4))
  have R: "bit (bytes_value xs OR push_bit (8 * i + k) (uint b)) n
           \<longleftrightarrow> bit (bytes_value xs) n \<or> (8 * i + k \<le> n \<and> bit b (n - (8 * i + k)))"
    by (simp add: bit_simps)
  consider (lt) "q < i" | (eq) "q = i" | (nx) "q = Suc i" | (gt) "Suc i < q" by linarith
  then show "bit (bytes_value (xs[i := xs ! i OR push_bit k b, Suc i := drop_bit (8 - k) b])) n
             = bit (bytes_value xs OR push_bit (8 * i + k) (uint b)) n"
  proof cases
    case lt
    then have "\<not> 8 * i + k \<le> n" using n(1,2) by linarith
    with lt i show ?thesis unfolding L R Z by simp
  next
    case eq
    have "8 * i + k \<le> n \<longleftrightarrow> k \<le> t" using eq n(1) by simp
    moreover have "n - (8 * i + k) = t - k" using eq n(1) by simp
    ultimately show ?thesis
      unfolding L R Z using eq i n(2) by (auto simp: bit_simps)
  next
    case nx
    have ge: "8 * i + k \<le> n" using nx n(1) k by simp
    have "\<not> bit (bytes_value xs) n" using tz ge by (rule tail_zero_bit)
    moreover have "n - (8 * i + k) = 8 - k + t" using nx n(1) k by simp
    ultimately show ?thesis
      unfolding L R using nx i ge by (simp add: bit_simps)
  next
    case gt
    have ge: "8 * i + k \<le> n" using gt n(1) k by simp
    have z: "\<not> bit (bytes_value xs) n" using tz ge by (rule tail_zero_bit)
    have "8 \<le> n - (8 * i + k)" using gt n(1) k by linarith
    then have "\<not> bit b (n - (8 * i + k))"
      using bit_imp_le_length [of b "n - (8 * i + k)"] by auto
    with z show ?thesis
      unfolding L R using gt z Z by auto
  qed
qed

lemma take_bit_uint_byte: "take_bit 8 (uint (b :: byte)) = uint b"
  by (simp add: bintr_uint)

lemma take_bit_bytes_value: "take_bit (8 * length bs) (bytes_value bs) = bytes_value bs"
proof (rule bit_eqI)
  fix n
  show "bit (take_bit (8 * length bs) (bytes_value bs)) n = bit (bytes_value bs) n"
    by (auto simp: bit_simps bit_bytes_value lt8_div)
qed

lemma add_unaligned_bytes_loop_eq:
  assumes "0 \<le> ser_bit_offset s" "ser_bit_offset s mod 8 = int k"
    "drop_bit (nat (ser_bit_offset s)) (bytes_value (ser_buf s)) = 0"
    "bs \<noteq> [] \<longrightarrow> nat (ser_bit_offset s div 8) + length bs < length (ser_buf s)"
  shows "\<exists>buf'. add_unaligned_bytes_loop k (8 - k) bs s
                  = (Inr (), s\<lparr>ser_buf := buf',
                                ser_bit_offset := ser_bit_offset s + 8 * int (length bs)\<rparr>) \<and>
               length buf' = length (ser_buf s) \<and>
               bytes_value buf' = bytes_value (ser_buf s)
                                    OR push_bit (nat (ser_bit_offset s)) (bytes_value bs)"
  using assms
proof (induction bs arbitrary: s)
  case Nil
  show ?case
    by (intro exI [of _ "ser_buf s"]) (simp add: py_return_def)
next
  case (Cons b bs)
  define p where "p = ser_bit_offset s"
  define i where "i = nat (p div 8)"
  define xs where "xs = ser_buf s"
  define z where "z = bytes_value xs"
  note sp = offset_split [OF Cons.prems(1,2) [folded p_def]]
  have k: "k \<le> 7"
  proof -
    have "p mod 8 < 8" by simp
    with Cons.prems(2) show ?thesis by (simp add: p_def)
  qed
  have np: "nat p = 8 * i + k" using sp(2) by (simp add: i_def)
  have room: "i + length bs + 1 < length xs"
    using Cons.prems(4) by (simp add: i_def p_def xs_def)
  have tz: "drop_bit (8 * i + k) z = 0"
    using Cons.prems(3) by (simp add: p_def [symmetric] np z_def xs_def)
  define v1 where "v1 = xs ! i OR push_bit k b"
  define v2 where "v2 = drop_bit (8 - k) b"
  define s1 where "s1 = s\<lparr>ser_buf := xs[i := v1]\<rparr>"
  define s1' where "s1' = s1\<lparr>ser_bit_offset := p + 8\<rparr>"
  define s2 where "s2 = s1'\<lparr>ser_buf := xs[i := v1, Suc i := v2]\<rparr>"
  have bo: "ser_byte_offset s = int i" "ser_byte_offset s1' = int (Suc i)"
    using sp(1) by (simp_all add: ser_byte_offset_def s1'_def s1_def i_def p_def [symmetric])
  have ix: "np_index xs (int i) = Inr i" "np_index (xs[i := v1]) (int (Suc i)) = Inr (Suc i)"
    using room by (simp_all add: np_index_def)
  have ld: "ser_load (ser_byte_offset s) s = (Inr (xs ! i), s)"
    by (simp add: ser_load_def bo xs_def [symmetric] ix)
  have st1: "ser_store (ser_byte_offset s) v1 s = (Inr (), s1)"
    by (simp add: ser_store_def bo xs_def [symmetric] ix s1_def)
  have adv: "ser_advance 8 s1 = (Inr (), s1')"
    by (simp add: ser_advance_def s1'_def s1_def p_def)
  have b1': "ser_buf s1' = xs[i := v1]"
    by (simp add: s1'_def s1_def)
  have st2: "ser_store (ser_byte_offset s1') v2 s1' = (Inr (), s2)"
    unfolding ser_store_def bo(2) b1' ix(2) by (simp add: s2_def)
  have step: "add_unaligned_bytes_loop k (8 - k) (b # bs) s
              = add_unaligned_bytes_loop k (8 - k) bs s2"
    unfolding add_unaligned_bytes_loop.simps
    by (simp add: py_bind_def py_then_def ld v1_def [symmetric] st1 adv v2_def [symmetric] st2)
  have val2: "bytes_value (xs[i := v1, Suc i := v2]) = z OR push_bit (8 * i + k) (uint b)"
    unfolding v1_def v2_def z_def using k room tz [unfolded z_def]
    by (intro unaligned_store_value) simp_all
  have s2: "ser_bit_offset s2 = p + 8" "ser_buf s2 = xs[i := v1, Suc i := v2]"
    by (simp_all add: s2_def s1'_def s1_def)
  have pre1: "0 \<le> ser_bit_offset s2" using Cons.prems(1) by (simp add: s2 p_def)
  have pre2: "ser_bit_offset s2 mod 8 = int k" using Cons.prems(2) by (simp add: s2 p_def)
  have np8: "nat (p + 8) = 8 * i + k + 8" using np Cons.prems(1) by (simp add: p_def nat_add_distrib)
  have pre3: "drop_bit (nat (ser_bit_offset s2)) (bytes_value (ser_buf s2)) = 0"
    unfolding s2 val2 np8 using tz take_bit_uint_byte by (rule tail_zero_or)
  have pre4: "bs \<noteq> [] \<longrightarrow> nat (ser_bit_offset s2 div 8) + length bs < length (ser_buf s2)"
  proof -
    have "(p + 8) div 8 = p div 8 + 1" by simp
    then have "nat ((p + 8) div 8) = Suc i" using sp(3) by (simp add: i_def)
    then show ?thesis using room by (simp add: s2)
  qed
  from Cons.IH [OF pre1 pre2 pre3 pre4]
  obtain buf' where IH: "add_unaligned_bytes_loop k (8 - k) bs s2
                  = (Inr (), s2\<lparr>ser_buf := buf',
                                 ser_bit_offset := ser_bit_offset s2 + 8 * int (length bs)\<rparr>)"
    "length buf' = length (ser_buf s2)"
    "bytes_value buf' = bytes_value (ser_buf s2)
                          OR push_bit (nat (ser_bit_offset s2)) (bytes_value bs)"
    by blast
  have fin: "s2\<lparr>ser_buf := buf', ser_bit_offset := ser_bit_offset s2 + 8 * int (length bs)\<rparr>
             = s\<lparr>ser_buf := buf', ser_bit_offset := ser_bit_offset s + 8 * int (length (b # bs))\<rparr>"
    by (simp add: s2_def s1'_def s1_def p_def)
  have "bytes_value buf' = (z OR push_bit (8 * i + k) (uint b))
                             OR push_bit (8 * i + k + 8) (bytes_value bs)"
    using IH(3) by (simp only: s2 val2 np8)
  also have "\<dots> = z OR push_bit (8 * i + k) (uint b OR push_bit 8 (bytes_value bs))"
    by (simp add: push_bit_or push_bit_push_bit or.assoc add.commute)
  finally have val: "bytes_value buf' = bytes_value (ser_buf s)
                       OR push_bit (nat (ser_bit_offset s)) (bytes_value (b # bs))"
    by (simp add: bytes_value_Cons z_def xs_def p_def [symmetric] np)
  show ?case
    using step IH(1,2) fin val by (intro exI [of _ buf']) (simp add: s2 xs_def)
qed

lemma add_unaligned_bytes_eq:
  assumes "0 \<le> ser_bit_offset s"
    "drop_bit (nat (ser_bit_offset s)) (bytes_value (ser_buf s)) = 0"
    "bs \<noteq> [] \<longrightarrow> nat (ser_bit_offset s div 8) + length bs < length (ser_buf s)"
  shows "\<exists>buf'. add_unaligned_bytes bs s
                  = (Inr (), s\<lparr>ser_buf := buf',
                                ser_bit_offset := ser_bit_offset s + 8 * int (length bs)\<rparr>) \<and>
               length buf' = length (ser_buf s) \<and>
               bytes_value buf' = bytes_value (ser_buf s)
                                    OR push_bit (nat (ser_bit_offset s)) (bytes_value bs)"
proof -
  have "0 \<le> ser_bit_offset s mod 8" by simp
  then have k: "ser_bit_offset s mod 8 = int (nat (ser_bit_offset s mod 8))" by simp
  show ?thesis
    unfolding add_unaligned_bytes_def Let_def
    using assms(1) k assms(2,3) by (rule add_unaligned_bytes_loop_eq)
qed

lemma take_bit_take_bit_le: "w \<le> m \<Longrightarrow> take_bit m (take_bit w (v :: int)) = take_bit w v"
  by (simp add: min_def)

lemma unsigned_to_bytes_value:
  assumes "1 \<le> w" "0 \<le> v"
  shows "\<exists>bs. unsigned_to_bytes v w = Inr bs \<and> length bs = nat ((w + 7) div 8) \<and>
              bytes_value bs = take_bit (nat w) v"
proof -
  have "nat w \<le> 8 * nat ((w + 7) div 8)" using assms(1) by (intro ceil8_nat_ge) simp
  then have "bytes_value (bytes_at (take_bit (nat w) v) 0 (nat ((w + 7) div 8))) = take_bit (nat w) v"
    by (simp add: bytes_value_bytes_at take_bit_take_bit_le)
  then show ?thesis using assms by (simp add: unsigned_to_bytes_eq)
qed

lemma ceil8_pos: "1 \<le> (w :: int) \<Longrightarrow> 1 \<le> (w + 7) div 8"
  by linarith

lemma add_unaligned_unsigned_eq:
  assumes "0 \<le> ser_bit_offset s"
    "drop_bit (nat (ser_bit_offset s)) (bytes_value (ser_buf s)) = 0"
    "0 \<le> v" "1 \<le> w"
    "nat (ser_bit_offset s div 8) + nat ((w + 7) div 8) < length (ser_buf s)"
  shows "\<exists>buf'. add_unaligned_unsigned v w s
                  = (Inr (), s\<lparr>ser_buf := buf', ser_bit_offset := ser_bit_offset s + w\<rparr>) \<and>
               length buf' = length (ser_buf s) \<and>
               bytes_value buf' = bytes_value (ser_buf s)
                                    OR push_bit (nat (ser_bit_offset s)) (take_bit (nat w) v) \<and>
               drop_bit (nat (ser_bit_offset s + w)) (bytes_value buf') = 0"
proof -
  from unsigned_to_bytes_value [OF assms(4,3)]
  obtain bs where bs: "unsigned_to_bytes v w = Inr bs" "length bs = nat ((w + 7) div 8)"
    "bytes_value bs = take_bit (nat w) v" by blast
  have n: "1 \<le> (w + 7) div 8" using assms(4) by (rule ceil8_pos)
  have len: "int (length bs) = (w + 7) div 8" using n by (simp add: bs(2))
  have bt: "0 \<le> int (length bs) * 8 - w" unfolding len using ceil8_backtrack [of w] by simp
  have room: "bs \<noteq> [] \<longrightarrow> nat (ser_bit_offset s div 8) + length bs < length (ser_buf s)"
    using assms(5) by (simp add: bs(2))
  from add_unaligned_bytes_eq [OF assms(1,2) room]
  obtain buf' where w: "add_unaligned_bytes bs s
                  = (Inr (), s\<lparr>ser_buf := buf',
                                ser_bit_offset := ser_bit_offset s + 8 * int (length bs)\<rparr>)"
    "length buf' = length (ser_buf s)"
    "bytes_value buf' = bytes_value (ser_buf s) OR push_bit (nat (ser_bit_offset s)) (bytes_value bs)"
    by blast
  have run: "add_unaligned_unsigned v w s
             = (Inr (), s\<lparr>ser_buf := buf', ser_bit_offset := ser_bit_offset s + w\<rparr>)"
    using assms(3) bt
    by (simp add: add_unaligned_unsigned_def py_then_def py_bind_def py_pure_def bs(1) Let_def
        py_return_def py_assert_def w(1) ser_advance_def)
  have "nat (ser_bit_offset s + w) = nat (ser_bit_offset s) + nat w"
    using assms(1,4) by (simp add: nat_add_distrib)
  moreover have "drop_bit (nat (ser_bit_offset s) + nat w)
                   (bytes_value (ser_buf s) OR push_bit (nat (ser_bit_offset s)) (take_bit (nat w) v)) = 0"
    using assms(2) by (rule tail_zero_or) simp
  ultimately have tz: "drop_bit (nat (ser_bit_offset s + w)) (bytes_value buf') = 0"
    by (simp add: w(3) bs(3))
  show ?thesis
    using run w(2,3) tz by (intro exI [of _ buf']) (simp add: bs(3))
qed

lemma take_bit_tail_zero:
  assumes "drop_bit p (z :: int) = 0" "p \<le> q"
  shows "take_bit q z = z"
proof (rule bit_eqI)
  fix n
  have "bit z n \<Longrightarrow> n < q"
    using tail_zero_bit [OF assms(1), of n] assms(2) by (cases "p \<le> n") auto
  then show "bit (take_bit q z) n = bit z n" by (auto simp: bit_simps)
qed

lemma bytes_value_take: "bytes_value (take m xs) = take_bit (8 * m) (bytes_value xs)"
proof (rule bit_eqI)
  fix n
  show "bit (bytes_value (take m xs)) n = bit (take_bit (8 * m) (bytes_value xs)) n"
    by (auto simp: bit_simps bit_bytes_value lt8_div)
qed

lemma buffer_value:
  assumes "0 \<le> ser_bit_offset s"
    "drop_bit (nat (ser_bit_offset s)) (bytes_value (ser_buf s)) = 0"
  shows "bytes_value (buffer s) = bytes_value (ser_buf s)"
proof -
  have n: "0 \<le> (ser_bit_offset s + 7) div 8" using assms(1) by (intro ceil8_nonneg)
  have "nat (ser_bit_offset s) \<le> 8 * nat ((ser_bit_offset s + 7) div 8)"
    using assms(1) by (rule ceil8_nat_ge)
  with assms(2) have "take_bit (8 * nat ((ser_bit_offset s + 7) div 8)) (bytes_value (ser_buf s))
                      = bytes_value (ser_buf s)"
    by (rule take_bit_tail_zero)
  then show ?thesis
    using n by (simp add: buffer_def py_slice_to_take bytes_value_take)
qed

lemma buffer_length:
  assumes "0 \<le> ser_bit_offset s" "(ser_bit_offset s + 7) div 8 \<le> int (length (ser_buf s))"
  shows "int (length (buffer s)) = (ser_bit_offset s + 7) div 8"
proof -
  have n: "0 \<le> (ser_bit_offset s + 7) div 8" using assms(1) by (intro ceil8_nonneg)
  then show ?thesis
    using assms(2) by (auto simp: buffer_def py_slice_to_take min_def)
qed

lemma bytes_value_replicate_zero [simp]: "bytes_value (replicate n 0) = 0"
  by (rule bit_eqI) (simp add: bit_bytes_value)

lemma Serializer_new_ok:
  "0 \<le> n \<Longrightarrow> Serializer_new n = Inr \<lparr>ser_buf = replicate (nat n + 1) 0, ser_bit_offset = 0\<rparr>"
  by (simp add: Serializer_new_def EXTRA_BUFFER_CAPACITY_BYTES_def nat_add_distrib)

section \<open>Round trips\<close>

lemma bytes_value_zero_Cons [simp]: "bytes_value (0 # replicate m 0) = 0"
  using bytes_value_replicate_zero [of "Suc m"] by simp

lemma floor_ceil8:
  assumes "0 \<le> (p :: int)"
  shows "p div 8 + (w + 7) div 8 \<le> (p + w + 7) div 8"
proof -
  have "8 * (p div 8) \<le> p" by (simp add: mult.commute)
  then have "(w + 7 + 8 * (p div 8)) div 8 \<le> (p + w + 7) div 8"
    by (intro zdiv_mono1) simp_all
  then show ?thesis by (simp add: add.commute)
qed

lemma room_from_size:
  assumes "0 \<le> k" "0 \<le> m" "(k + 8 * m + 7) div 8 \<le> n"
  shows "nat (k div 8) + nat m < nat n + 1"
proof -
  have "k div 8 + (8 * m + 7) div 8 \<le> (k + 8 * m + 7) div 8"
    using floor_ceil8 [OF assms(1), of "8 * m"] by simp
  moreover have "(8 * m + 7) div 8 = m" by simp
  moreover have "0 \<le> k div 8" using assms(1) by (simp add: pos_imp_zdiv_nonneg_iff)
  ultimately show ?thesis using assms(2,3) by linarith
qed

lemma size_nonneg:
  assumes "0 \<le> (k :: int)" "0 \<le> w" "(k + w + 7) div 8 \<le> n"
  shows "0 \<le> n"
proof -
  have "0 \<le> (k + w + 7) div 8" using assms(1,2) by (simp add: pos_imp_zdiv_nonneg_iff)
  with assms(3) show ?thesis by linarith
qed

lemma serialize_at_eq:
  assumes n: "0 \<le> n"
    and w: "write \<lparr>ser_buf = replicate (nat n + 1) 0, ser_bit_offset = k\<rparr> = (Inr (), s')"
  shows "serialize_at n k write = Inr (buffer s')"
  using n w
  by (simp add: serialize_at_def Serializer_new_ok py_then_def py_bind_def Serializer_skip_bits_def
      ser_advance_def)

lemma serialize_at_bytes:
  assumes "0 \<le> k" "(k + 8 * int (length bs) + 7) div 8 \<le> n"
  shows "\<exists>data. serialize_at n k (add_unaligned_bytes bs) = Inr data \<and>
                bytes_value data = push_bit (nat k) (bytes_value bs) \<and>
                int (length data) = (k + 8 * int (length bs) + 7) div 8"
proof -
  define s1 where "s1 = \<lparr>ser_buf = replicate (nat n + 1) (0 :: byte), ser_bit_offset = k\<rparr>"
  have n: "0 \<le> n" using assms(1) size_nonneg [OF assms(1) _ assms(2)] by simp
  have pre: "0 \<le> ser_bit_offset s1" "drop_bit (nat (ser_bit_offset s1)) (bytes_value (ser_buf s1)) = 0"
    using assms(1) by (simp_all add: s1_def)
  have room: "bs \<noteq> [] \<longrightarrow> nat (ser_bit_offset s1 div 8) + length bs < length (ser_buf s1)"
    using room_from_size [OF assms(1) _ assms(2)] by (simp add: s1_def)
  from add_unaligned_bytes_eq [OF pre room]
  obtain buf' where w: "add_unaligned_bytes bs s1
                  = (Inr (), s1\<lparr>ser_buf := buf', ser_bit_offset := k + 8 * int (length bs)\<rparr>)"
    "bytes_value buf' = push_bit (nat k) (bytes_value bs)"
    "length buf' = nat n + 1"
    by (auto simp: s1_def)
  define s2 where "s2 = s1\<lparr>ser_buf := buf', ser_bit_offset := k + 8 * int (length bs)\<rparr>"
  have len: "int (length (buffer s2)) = (k + 8 * int (length bs) + 7) div 8"
    using buffer_length [of s2] assms n w(3) by (simp add: s2_def)
  have "drop_bit (nat k + 8 * length bs) (0 OR push_bit (nat k) (bytes_value bs)) = 0"
    by (rule tail_zero_or) (simp_all add: take_bit_bytes_value)
  moreover have "nat (k + 8 * int (length bs)) = nat k + 8 * length bs"
    using assms(1) by (simp add: nat_add_distrib nat_mult_distrib)
  ultimately have "bytes_value (buffer s2) = bytes_value (ser_buf s2)"
    using assms(1) by (intro buffer_value) (simp_all add: s2_def w(2))
  then have "bytes_value (buffer s2) = push_bit (nat k) (bytes_value bs)"
    by (simp add: s2_def w(2))
  moreover have "serialize_at n k (add_unaligned_bytes bs) = Inr (buffer s2)"
    using n w(1) unfolding s1_def s2_def by (rule serialize_at_eq)
  ultimately show ?thesis using len by blast
qed

lemma serialize_at_unsigned:
  assumes "0 \<le> k" "1 \<le> w" "0 \<le> v" "(k + w + 7) div 8 \<le> n"
  shows "\<exists>data. serialize_at n k (add_unaligned_unsigned v w) = Inr data \<and>
                bytes_value data = push_bit (nat k) (take_bit (nat w) v) \<and>
                int (length data) = (k + w + 7) div 8"
proof -
  define s1 where "s1 = \<lparr>ser_buf = replicate (nat n + 1) (0 :: byte), ser_bit_offset = k\<rparr>"
  have w0: "0 \<le> w" using assms(2) by simp
  have n: "0 \<le> n" using size_nonneg [OF assms(1) w0 assms(4)] .
  have pre: "0 \<le> ser_bit_offset s1" "drop_bit (nat (ser_bit_offset s1)) (bytes_value (ser_buf s1)) = 0"
    using assms(1) by (simp_all add: s1_def)
  have "k div 8 + (w + 7) div 8 \<le> (k + w + 7) div 8" using assms(1) by (rule floor_ceil8)
  moreover have "0 \<le> k div 8" using assms(1) by (simp add: pos_imp_zdiv_nonneg_iff)
  moreover have "0 \<le> (w + 7) div 8" using w0 by (rule ceil8_nonneg)
  ultimately have room: "nat (ser_bit_offset s1 div 8) + nat ((w + 7) div 8) < length (ser_buf s1)"
    using assms(4) n by (simp add: s1_def) linarith
  from add_unaligned_unsigned_eq [OF pre assms(3,2) room]
  obtain buf' where w: "add_unaligned_unsigned v w s1
                  = (Inr (), s1\<lparr>ser_buf := buf', ser_bit_offset := k + w\<rparr>)"
    "bytes_value buf' = push_bit (nat k) (take_bit (nat w) v)"
    "drop_bit (nat (k + w)) (bytes_value buf') = 0"
    "length buf' = nat n + 1"
    by (auto simp: s1_def)
  define s2 where "s2 = s1\<lparr>ser_buf := buf', ser_bit_offset := k + w\<rparr>"
  have len: "int (length (buffer s2)) = (k + w + 7) div 8"
    using buffer_length [of s2] assms(1,4) w0 n w(4) by (simp add: s2_def)
  have "bytes_value (buffer s2) = bytes_value (ser_buf s2)"
    using assms(1) w0 w(3) by (intro buffer_value) (simp_all add: s2_def)
  then have "bytes_value (buffer s2) = push_bit (nat k) (take_bit (nat w) v)"
    by (simp add: s2_def w(2))
  moreover have "serialize_at n k (add_unaligned_unsigned v w) = Inr (buffer s2)"
    using n w(1) unfolding s1_def s2_def by (rule serialize_at_eq)
  ultimately show ?thesis using len by blast
qed

lemma deserialize_at_eq:
  assumes "0 \<le> k" "read \<lparr>des_buf = data, des_bit_offset = k\<rparr> = (r, d')"
  shows "deserialize_at data k read = r"
  using assms
  by (simp add: deserialize_at_def py_then_def py_bind_def Deserializer_skip_bits_def py_return_def)

lemma deserialize_at_unsigned:
  assumes "0 \<le> k" "1 \<le> w" "k div 8 + (w + 7) div 8 \<le> int (length data)"
  shows "deserialize_at data k (fetch_unaligned_unsigned w)
         = Inr (take_bit (nat w) (drop_bit (nat k) (bytes_value data)))"
  using assms(1)
  by (rule deserialize_at_eq) (simp add: fetch_unaligned_unsigned_eq assms indices_fit_within)

lemma deserialize_at_bytes:
  assumes "0 \<le> k" "0 \<le> c" "k div 8 + c \<le> int (length data)"
  shows "deserialize_at data k (fetch_unaligned_bytes c)
         = Inr (bytes_at (bytes_value data) (nat k) (nat c))"
  using assms(1)
  by (rule deserialize_at_eq) (simp add: fetch_unaligned_bytes_eq assms indices_fit_within)

lemma roundtrip_unsigned:
  assumes "0 \<le> k" "1 \<le> w" "0 \<le> v" "v < 2 ^ nat w" "(k + w + 7) div 8 \<le> n"
  shows "\<exists>data. serialize_at n k (add_unaligned_unsigned v w) = Inr data \<and>
                deserialize_at data k (fetch_unaligned_unsigned w) = Inr v"
proof -
  from serialize_at_unsigned [OF assms(1,2,3,5)]
  obtain data where d: "serialize_at n k (add_unaligned_unsigned v w) = Inr data"
    "bytes_value data = push_bit (nat k) (take_bit (nat w) v)"
    "int (length data) = (k + w + 7) div 8" by blast
  have fit: "k div 8 + (w + 7) div 8 \<le> int (length data)"
    unfolding d(3) using assms(1) by (rule floor_ceil8)
  have "take_bit (nat w) v = v" using assms(3,4) by (simp add: take_bit_int_eq_self)
  then have "deserialize_at data k (fetch_unaligned_unsigned w) = Inr v"
    using assms(1,2) fit by (simp add: deserialize_at_unsigned d(2) drop_bit_push_bit)
  with d(1) show ?thesis by blast
qed

lemma pow2_split:
  assumes "2 \<le> (w :: int)"
  shows "(2 :: int) ^ nat w = 2 * 2 ^ nat (w - 1)"
proof -
  have "nat w = Suc (nat (w - 1))" using assms by linarith
  then show ?thesis by simp
qed

lemma serialize_at_signed:
  assumes "2 \<le> w"
  shows "serialize_at n k (add_unaligned_signed v w)
         = serialize_at n k (add_unaligned_unsigned (if v < 0 then 2 ^ nat w + v else v) w)"
  using assms by (simp add: serialize_at_def add_unaligned_signed_def py_then_def py_bind_def
      py_assert_def split: sum.splits prod.splits)

lemma fetch_unaligned_signed_eq:
  assumes "0 \<le> des_bit_offset d" "2 \<le> w"
    "u = take_bit (nat w) (drop_bit (nat (des_bit_offset d)) (bytes_value (des_buf d)))"
    "des_bit_offset d mod 8 = 0 \<or>
     indices_fit (des_buf d) (des_bit_offset d div 8) (des_bit_offset d div 8 + (w + 7) div 8)"
  shows "fetch_unaligned_signed w d =
           (Inr (if u \<ge> 2 ^ nat (w - 1) then u - 2 ^ nat w else u),
            d\<lparr>des_bit_offset := des_bit_offset d + w\<rparr>)"
proof -
  have "1 \<le> w" using assms(2) by simp
  from fetch_unaligned_unsigned_eq [OF assms(1) this assms(4)] assms(2,3) show ?thesis
    by (simp add: fetch_unaligned_signed_def py_bind_def py_return_def)
qed

lemma deserialize_at_signed:
  assumes "0 \<le> k" "2 \<le> w" "deserialize_at data k (fetch_unaligned_unsigned w) = Inr u"
  shows "deserialize_at data k (fetch_unaligned_signed w)
         = Inr (if u \<ge> 2 ^ nat (w - 1) then u - 2 ^ nat w else u)"
  using assms
  by (auto simp: deserialize_at_def fetch_unaligned_signed_def py_then_def py_bind_def py_return_def
      py_assert_def Deserializer_skip_bits_def split: sum.splits prod.splits)

lemma roundtrip_signed:
  assumes "0 \<le> k" "2 \<le> w" "- (2 ^ nat (w - 1)) \<le> v" "v < 2 ^ nat (w - 1)"
    "(k + w + 7) div 8 \<le> n"
  shows "\<exists>data. serialize_at n k (add_unaligned_signed v w) = Inr data \<and>
                deserialize_at data k (fetch_unaligned_signed w) = Inr v"
proof -
  define u where "u = (if v < 0 then 2 ^ nat w + v else v)"
  note p2 = pow2_split [OF assms(2)]
  have w1: "1 \<le> w" using assms(2) by simp
  have pos: "(0 :: int) < 2 ^ nat (w - 1)" by simp
  have u: "0 \<le> u" "u < 2 ^ nat w"
    using assms(3,4) pos by (auto simp: u_def p2)
  from roundtrip_unsigned [OF assms(1) w1 u assms(5)]
  obtain data where d: "serialize_at n k (add_unaligned_unsigned u w) = Inr data"
    "deserialize_at data k (fetch_unaligned_unsigned w) = Inr u" by blast
  have "(if u \<ge> 2 ^ nat (w - 1) then u - 2 ^ nat w else u) = v"
    using assms(3,4) pos by (auto simp: u_def p2)
  then have "deserialize_at data k (fetch_unaligned_signed w) = Inr v"
    using deserialize_at_signed [OF assms(1,2) d(2)] by simp
  moreover have "serialize_at n k (add_unaligned_signed v w) = Inr data"
    using d(1) by (simp add: serialize_at_signed [OF assms(2)] u_def)
  ultimately show ?thesis by blast
qed

lemma bytes_at_bytes_value: "bytes_at (bytes_value bs) 0 (length bs) = bs"
proof (rule nth_equalityI)
  show "length (bytes_at (bytes_value bs) 0 (length bs)) = length bs" by simp
next
  fix i assume "i < length (bytes_at (bytes_value bs) 0 (length bs))"
  then have i: "i < length bs" by simp
  show "bytes_at (bytes_value bs) 0 (length bs) ! i = bs ! i"
  proof (rule bit_word_eqI)
    fix m assume "m < LENGTH(8)"
    then have m: "m < 8" by simp
    have d: "(8 * i + m) div 8 = i" "(8 * i + m) mod 8 = m"
      using div8_add2 [OF m, of 0 i] mod8_add2 [OF m, of 0 i] by simp_all
    show "bit (bytes_at (bytes_value bs) 0 (length bs) ! i) m = bit (bs ! i) m"
      using i m by (simp add: bit_bytes_at bit_bytes_value d)
  qed
qed

lemma bytes_at_shift: "bytes_at z p n = bytes_at (drop_bit p z) 0 n"
  by (simp add: bytes_at_def drop_bit_drop_bit add.commute)

lemma roundtrip_bytes:
  assumes "0 \<le> k" "(k + 8 * int (length bs) + 7) div 8 \<le> n"
  shows "\<exists>data. serialize_at n k (add_unaligned_bytes bs) = Inr data \<and>
                deserialize_at data k (fetch_unaligned_bytes (int (length bs))) = Inr bs"
proof -
  from serialize_at_bytes [OF assms]
  obtain data where d: "serialize_at n k (add_unaligned_bytes bs) = Inr data"
    "bytes_value data = push_bit (nat k) (bytes_value bs)"
    "int (length data) = (k + 8 * int (length bs) + 7) div 8" by blast
  have "k div 8 + (8 * int (length bs) + 7) div 8 \<le> (k + 8 * int (length bs) + 7) div 8"
    using assms(1) by (rule floor_ceil8)
  then have fit: "k div 8 + int (length bs) \<le> int (length data)"
    unfolding d(3) by simp
  have "bytes_at (bytes_value data) (nat k) (length bs) = bytes_at (bytes_value bs) 0 (length bs)"
    by (subst bytes_at_shift) (simp add: d(2) drop_bit_push_bit)
  then have "deserialize_at data k (fetch_unaligned_bytes (int (length bs))) = Inr bs"
    using assms(1) fit by (simp add: deserialize_at_bytes bytes_at_bytes_value)
  with d(1) show ?thesis by blast
qed

lemma float_to_bytes_in_range:
  "pack (''<'' @ fc) x = Inr bs \<Longrightarrow> float_to_bytes pack fc x = Inr bs"
  by (simp add: float_to_bytes_def)

lemma serialize_at_bind_pure:
  assumes "r = Inr bs"
  shows "serialize_at n k (py_bind (py_pure (\<lambda>_. r)) write) = serialize_at n k (write bs)"
  using assms
  by (simp add: serialize_at_def py_then_def py_bind_def py_pure_def split: sum.splits prod.splits)

lemma deserialize_at_map:
  assumes "0 \<le> k" "deserialize_at data k read = Inr bs"
  shows "deserialize_at data k (py_bind read (\<lambda>bs. py_return (f bs))) = Inr (f bs)"
  using assms
  by (auto simp: deserialize_at_def py_then_def py_bind_def py_return_def Deserializer_skip_bits_def
      split: sum.splits prod.splits)

lemma roundtrip_float:
  assumes k: "0 \<le> k" and p: "pack (''<'' @ fc) x = Inr bs" and u: "unpack (''<'' @ fc) bs = x"
    and n: "(k + 8 * int (length bs) + 7) div 8 \<le> n"
  shows "\<exists>data. serialize_at n k (py_bind (py_pure (\<lambda>_. float_to_bytes pack fc x)) add_unaligned_bytes)
                  = Inr data \<and>
                deserialize_at data k
                  (py_bind (fetch_unaligned_bytes (int (length bs)))
                     (\<lambda>bs. py_return (unpack (''<'' @ fc) bs))) = Inr x"
proof -
  from roundtrip_bytes [OF k n]
  obtain data where d: "serialize_at n k (add_unaligned_bytes bs) = Inr data"
    "deserialize_at data k (fetch_unaligned_bytes (int (length bs))) = Inr bs" by blast
  have fb: "float_to_bytes pack fc x = Inr bs"
    using p by (rule float_to_bytes_in_range [of pack fc x bs])
  have "serialize_at n k (py_bind (py_pure (\<lambda>_. float_to_bytes pack fc x)) add_unaligned_bytes)
        = Inr data"
    using d(1) by (simp add: serialize_at_bind_pure [OF fb])
  moreover have "deserialize_at data k
                  (py_bind (fetch_unaligned_bytes (int (length bs)))
                     (\<lambda>bs. py_return (unpack (''<'' @ fc) bs))) = Inr x"
    using deserialize_at_map [OF k d(2), of "unpack (''<'' @ fc)"] u by simp
  ultimately show ?thesis by blast
qed

text \<open>
  Claim C1. For every starting bit offset \<open>k \<ge> 0\<close> (in particular \<open>k = 0, \<dots>, 7\<close>) and
  every serializer size \<open>n\<close> that holds \<open>k\<close> bits and the value, writing a value at offset \<open>k\<close>
  and reading the serialized representation back at offset \<open>k\<close> returns the value:
  \<^item> unsigned, every width \<open>w \<ge> 1\<close> and every \<open>0 \<le> v < 2^w\<close>, with
    \<^verbatim>\<open>add_unaligned_unsigned\<close> and \<^verbatim>\<open>fetch_unaligned_unsigned\<close>;
  \<^item> signed, every width \<open>w \<ge> 2\<close> and every \<open>-2^(w-1) \<le> v < 2^(w-1)\<close>, with
    \<^verbatim>\<open>add_unaligned_signed\<close> and \<^verbatim>\<open>fetch_unaligned_signed\<close>;
  \<^item> float, widths 16, 32 and 64, every value that \<^verbatim>\<open>struct.pack\<close> packs without overflow
    into bytes from which \<^verbatim>\<open>struct.unpack\<close> recovers it (a value representable in that
    width), with \<^verbatim>\<open>add_unaligned_f16/32/64\<close> and \<^verbatim>\<open>fetch_unaligned_f16/32/64\<close>.
  These are the operations that accept every offset; the standard widths 8, 16, 32, 64 are
  instances of \<open>w\<close>.
\<close>

theorem roundtrip:
  assumes k: "0 \<le> k"
  shows
   "(1 \<le> w \<and> 0 \<le> v \<and> v < 2 ^ nat w \<and> (k + w + 7) div 8 \<le> n \<longrightarrow>
       (\<exists>data. serialize_at n k (add_unaligned_unsigned v w) = Inr data \<and>
               deserialize_at data k (fetch_unaligned_unsigned w) = Inr v)) \<and>
    (2 \<le> w \<and> - (2 ^ nat (w - 1)) \<le> v \<and> v < 2 ^ nat (w - 1) \<and> (k + w + 7) div 8 \<le> n \<longrightarrow>
       (\<exists>data. serialize_at n k (add_unaligned_signed v w) = Inr data \<and>
               deserialize_at data k (fetch_unaligned_signed w) = Inr v)) \<and>
    (pack ''<e'' x = Inr bs \<and> length bs = 2 \<and> unpack ''<e'' bs = x \<and> (k + 16 + 7) div 8 \<le> n \<longrightarrow>
       (\<exists>data. serialize_at n k (add_unaligned_f16 pack x) = Inr data \<and>
               deserialize_at data k (fetch_unaligned_f16 unpack) = Inr x)) \<and>
    (pack ''<f'' x = Inr bs \<and> length bs = 4 \<and> unpack ''<f'' bs = x \<and> (k + 32 + 7) div 8 \<le> n \<longrightarrow>
       (\<exists>data. serialize_at n k (add_unaligned_f32 pack x) = Inr data \<and>
               deserialize_at data k (fetch_unaligned_f32 unpack) = Inr x)) \<and>
    (pack ''<d'' x = Inr bs \<and> length bs = 8 \<and> unpack ''<d'' bs = x \<and> (k + 64 + 7) div 8 \<le> n \<longrightarrow>
       (\<exists>data. serialize_at n k (add_unaligned_f64 pack x) = Inr data \<and>
               deserialize_at data k (fetch_unaligned_f64 unpack) = Inr x))"
proof (intro conjI impI)
  assume "1 \<le> w \<and> 0 \<le> v \<and> v < 2 ^ nat w \<and> (k + w + 7) div 8 \<le> n"
  then show "\<exists>data. serialize_at n k (add_unaligned_unsigned v w) = Inr data \<and>
               deserialize_at data k (fetch_unaligned_unsigned w) = Inr v"
    using roundtrip_unsigned [OF k, of w v n] by blast
next
  assume "2 \<le> w \<and> - (2 ^ nat (w - 1)) \<le> v \<and> v < 2 ^ nat (w - 1) \<and> (k + w + 7) div 8 \<le> n"
  then show "\<exists>data. serialize_at n k (add_unaligned_signed v w) = Inr data \<and>
               deserialize_at data k (fetch_unaligned_signed w) = Inr v"
    using roundtrip_signed [OF k, of w v n] by blast
next
  assume "pack ''<e'' x = Inr bs \<and> length bs = 2 \<and> unpack ''<e'' bs = x \<and> (k + 16 + 7) div 8 \<le> n"
  then show "\<exists>data. serialize_at n k (add_unaligned_f16 pack x) = Inr data \<and>
               deserialize_at data k (fetch_unaligned_f16 unpack) = Inr x"
    using roundtrip_float [OF k, of pack "''e''" x bs unpack n]
    by (simp add: add_unaligned_f16_def fetch_unaligned_f16_def)
next
  assume "pack ''<f'' x = Inr bs \<and> length bs = 4 \<and> unpack ''<f'' bs = x \<and> (k + 32 + 7) div 8 \<le> n"
  then show "\<exists>data. serialize_at n k (add_unaligned_f32 pack x) = Inr data \<and>
               deserialize_at data k (fetch_unaligned_f32 unpack) = Inr x"
    using roundtrip_float [OF k, of pack "''f''" x bs unpack n]
    by (simp add: add_unaligned_f32_def fetch_unaligned_f32_def)
next
  assume "pack ''<d'' x = Inr bs \<and> length bs = 8 \<and> unpack ''<d'' bs = x \<and> (k + 64 + 7) div 8 \<le> n"
  then show "\<exists>data. serialize_at n k (add_unaligned_f64 pack x) = Inr data \<and>
               deserialize_at data k (fetch_unaligned_f64 unpack) = Inr x"
    using roundtrip_float [OF k, of pack "''d''" x bs unpack n]
    by (simp add: add_unaligned_f64_def fetch_unaligned_f64_def)
qed

theorem roundtrip_witness:
  "(\<exists>data. serialize_at 2 3 (add_unaligned_unsigned 1893 11) = Inr data \<and>
           deserialize_at data 3 (fetch_unaligned_unsigned 11) = Inr 1893) \<and>
   (\<exists>data. serialize_at 2 5 (add_unaligned_signed (- 2) 8) = Inr data \<and>
           deserialize_at data 5 (fetch_unaligned_signed 8) = Inr (- 2)) \<and>
   (\<exists>data. serialize_at 3 7 (add_unaligned_f16 (\<lambda>f x. Inr [0x00, 0x3C]) (PyFloat 1)) = Inr data \<and>
           deserialize_at data 7 (fetch_unaligned_f16 (\<lambda>f bs. PyFloat 1)) = Inr (PyFloat 1))"
  using roundtrip [of 3 11 1893 2 "\<lambda>f x. Inr [0x00, 0x3C]" "PyFloat 1" "[0x00, 0x3C]" "\<lambda>f bs. PyFloat 1"]
    roundtrip [of 5 8 "- 2" 2 "\<lambda>f x. Inr [0x00, 0x3C]" "PyFloat 1" "[0x00, 0x3C]" "\<lambda>f bs. PyFloat 1"]
    roundtrip [of 7 8 0 3 "\<lambda>f x. Inr [0x00, 0x3C]" "PyFloat 1" "[0x00, 0x3C]" "\<lambda>f bs. PyFloat 1"]
  by simp

section \<open>Floating-point writes saturate\<close>

lemma add_aligned_bytes_ok:
  assumes "ser_aligned s" "0 \<le> ser_bit_offset s"
    "ser_bit_offset s div 8 + int (length bs) \<le> int (length (ser_buf s))"
  shows "add_aligned_bytes bs s
         = (Inr (), s\<lparr>ser_buf := take (nat (ser_bit_offset s div 8)) (ser_buf s) @ bs
                                     @ drop (nat (ser_bit_offset s div 8) + length bs) (ser_buf s),
                       ser_bit_offset := ser_bit_offset s + 8 * int (length bs)\<rparr>)"
proof -
  define bo where "bo = ser_bit_offset s div 8"
  have bo: "0 \<le> bo" using assms(2) by (simp add: bo_def pos_imp_zdiv_nonneg_iff)
  have fit: "nat bo + length bs \<le> length (ser_buf s)" using assms(3) bo unfolding bo_def by linarith
  have "np_set_slice (ser_buf s) bo (bo + int (length bs)) bs
        = Inr (take (nat bo) (ser_buf s) @ bs @ drop (nat bo + length bs) (ser_buf s))"
    using bo fit by (simp add: np_set_slice_def py_clip_def Let_def min_def nat_add_distrib)
  then show ?thesis
    using assms(1)
    by (simp add: add_aligned_bytes_def py_then_def py_bind_def py_assert_def
        ser_store_slice_def ser_byte_offset_def ser_advance_def bo_def [symmetric] mult.commute)
qed

lemma float_to_bytes_saturates:
  assumes "pack (''<'' @ fc) (PyFloat r) = Inl OverflowError"
    "pack (''<'' @ fc) (if 0 < r then PyInf else PyNegInf) = Inr bs"
  shows "float_to_bytes pack fc (PyFloat r) = Inr bs"
  using assms by (simp add: float_to_bytes_def)

lemma bind_pure_write:
  "r = Inr bs \<Longrightarrow> py_bind (py_pure (\<lambda>_. r)) write s = write bs s"
  by (simp add: py_bind_def py_pure_def)

text \<open>
  Claim C7. \<^verbatim>\<open>struct.pack\<close> signals a finite value outside the range of the requested
  width by \<^verbatim>\<open>OverflowError\<close>. For such a value and each of the three widths the write
  does not fail: the bytes written are those that \<^verbatim>\<open>struct.pack\<close> returns for \<open>+Inf\<close> when
  the value is positive and for \<open>-Inf\<close> otherwise. The aligned writers store them at the
  cursor of any byte-aligned serializer with room for them and advance it by the width; the
  unaligned writers, on a new serializer at any bit offset \<open>k\<close>, leave them from bit \<open>k\<close> on.
  With \<open>00 7C\<close> as the packed binary16 \<open>+Inf\<close>, \<^verbatim>\<open>add_aligned_f16(99999.9)\<close> writes the two
  bytes \<open>00 7C\<close>.
\<close>

theorem float_saturation:
  assumes over: "pack (''<'' @ fc) (PyFloat r) = Inl OverflowError"
    and inf: "pack (''<'' @ fc) (if 0 < r then PyInf else PyNegInf) = Inr bs"
  shows
   "float_to_bytes pack fc (PyFloat r) = Inr bs \<and>
    (ser_aligned s \<and> 0 \<le> ser_bit_offset s \<and>
     ser_bit_offset s div 8 + int (length bs) \<le> int (length (ser_buf s)) \<longrightarrow>
       (\<exists>s'. s' = s\<lparr>ser_buf := take (nat (ser_bit_offset s div 8)) (ser_buf s) @ bs
                                  @ drop (nat (ser_bit_offset s div 8) + length bs) (ser_buf s),
                    ser_bit_offset := ser_bit_offset s + 8 * int (length bs)\<rparr> \<and>
             (fc = ''e'' \<longrightarrow> add_aligned_f16 pack (PyFloat r) s = (Inr (), s')) \<and>
             (fc = ''f'' \<longrightarrow> add_aligned_f32 pack (PyFloat r) s = (Inr (), s')) \<and>
             (fc = ''d'' \<longrightarrow> add_aligned_f64 pack (PyFloat r) s = (Inr (), s')))) \<and>
    (0 \<le> k \<and> (k + 8 * int (length bs) + 7) div 8 \<le> n \<longrightarrow>
       (\<exists>data. bytes_value data = push_bit (nat k) (bytes_value bs) \<and>
               (fc = ''e'' \<longrightarrow> serialize_at n k (add_unaligned_f16 pack (PyFloat r)) = Inr data) \<and>
               (fc = ''f'' \<longrightarrow> serialize_at n k (add_unaligned_f32 pack (PyFloat r)) = Inr data) \<and>
               (fc = ''d'' \<longrightarrow> serialize_at n k (add_unaligned_f64 pack (PyFloat r)) = Inr data)))"
proof (intro conjI impI)
  show fb: "float_to_bytes pack fc (PyFloat r) = Inr bs"
    using over inf by (rule float_to_bytes_saturates)
  {
    assume a: "ser_aligned s \<and> 0 \<le> ser_bit_offset s \<and>
               ser_bit_offset s div 8 + int (length bs) \<le> int (length (ser_buf s))"
    then have w: "add_aligned_bytes bs s
         = (Inr (), s\<lparr>ser_buf := take (nat (ser_bit_offset s div 8)) (ser_buf s) @ bs
                                     @ drop (nat (ser_bit_offset s div 8) + length bs) (ser_buf s),
                       ser_bit_offset := ser_bit_offset s + 8 * int (length bs)\<rparr>)"
      by (intro add_aligned_bytes_ok) simp_all
    show "\<exists>s'. s' = s\<lparr>ser_buf := take (nat (ser_bit_offset s div 8)) (ser_buf s) @ bs
                                  @ drop (nat (ser_bit_offset s div 8) + length bs) (ser_buf s),
                    ser_bit_offset := ser_bit_offset s + 8 * int (length bs)\<rparr> \<and>
             (fc = ''e'' \<longrightarrow> add_aligned_f16 pack (PyFloat r) s = (Inr (), s')) \<and>
             (fc = ''f'' \<longrightarrow> add_aligned_f32 pack (PyFloat r) s = (Inr (), s')) \<and>
             (fc = ''d'' \<longrightarrow> add_aligned_f64 pack (PyFloat r) s = (Inr (), s'))"
      using fb w
      by (auto simp: add_aligned_f16_def add_aligned_f32_def add_aligned_f64_def bind_pure_write)
  }
  {
    assume a: "0 \<le> k \<and> (k + 8 * int (length bs) + 7) div 8 \<le> n"
    from serialize_at_bytes [of k bs n] a
    obtain data where d: "serialize_at n k (add_unaligned_bytes bs) = Inr data"
      "bytes_value data = push_bit (nat k) (bytes_value bs)" by blast
    have "serialize_at n k (py_bind (py_pure (\<lambda>_. float_to_bytes pack fc (PyFloat r))) add_unaligned_bytes)
          = Inr data"
      using d(1) by (simp add: serialize_at_bind_pure [OF fb])
    then show "\<exists>data. bytes_value data = push_bit (nat k) (bytes_value bs) \<and>
               (fc = ''e'' \<longrightarrow> serialize_at n k (add_unaligned_f16 pack (PyFloat r)) = Inr data) \<and>
               (fc = ''f'' \<longrightarrow> serialize_at n k (add_unaligned_f32 pack (PyFloat r)) = Inr data) \<and>
               (fc = ''d'' \<longrightarrow> serialize_at n k (add_unaligned_f64 pack (PyFloat r)) = Inr data)"
      using d(2)
      by (auto simp: add_unaligned_f16_def add_unaligned_f32_def add_unaligned_f64_def)
  }
qed

theorem float_saturation_witness:
  "add_aligned_f16
     (\<lambda>f x. case x of PyFloat r \<Rightarrow> Inl OverflowError | PyInf \<Rightarrow> Inr [0x00, 0x7C]
                     | PyNegInf \<Rightarrow> Inr [0x00, 0xFC] | PyNaN \<Rightarrow> Inr [0x00, 0x7E])
     (PyFloat 99999.9) \<lparr>ser_buf = [0, 0, 0], ser_bit_offset = 0\<rparr>
     = (Inr (), \<lparr>ser_buf = [0x00, 0x7C, 0], ser_bit_offset = 16\<rparr>) \<and>
   add_aligned_f16
     (\<lambda>f x. case x of PyFloat r \<Rightarrow> Inl OverflowError | PyInf \<Rightarrow> Inr [0x00, 0x7C]
                     | PyNegInf \<Rightarrow> Inr [0x00, 0xFC] | PyNaN \<Rightarrow> Inr [0x00, 0x7E])
     (PyFloat (- 99999.9)) \<lparr>ser_buf = [0, 0, 0], ser_bit_offset = 0\<rparr>
     = (Inr (), \<lparr>ser_buf = [0x00, 0xFC, 0], ser_bit_offset = 16\<rparr>)"
  using float_saturation [of "\<lambda>f x. case x of PyFloat r \<Rightarrow> Inl OverflowError | PyInf \<Rightarrow> Inr [0x00, 0x7C]
                     | PyNegInf \<Rightarrow> Inr [0x00, 0xFC] | PyNaN \<Rightarrow> Inr [0x00, 0x7E]"
      "''e''" "99999.9" "[0x00, 0x7C]" "\<lparr>ser_buf = [0, 0, 0], ser_bit_offset = 0\<rparr>" 0 2]
    float_saturation [of "\<lambda>f x. case x of PyFloat r \<Rightarrow> Inl OverflowError | PyInf \<Rightarrow> Inr [0x00, 0x7C]
                     | PyNegInf \<Rightarrow> Inr [0x00, 0xFC] | PyNaN \<Rightarrow> Inr [0x00, 0x7E]"
      "''e''" "- 99999.9" "[0x00, 0xFC]" "\<lparr>ser_buf = [0, 0, 0], ser_bit_offset = 0\<rparr>" 0 2]
  by (simp add: ser_aligned_def)

section \<open>Unsigned writes truncate to the width\<close>

lemma unsigned_to_bytes_mod:
  assumes "0 \<le> v" "1 \<le> w"
  shows "unsigned_to_bytes v w = unsigned_to_bytes (v mod 2 ^ nat w) w"
proof -
  have "0 \<le> v mod 2 ^ nat w" by simp
  moreover have "take_bit (nat w) (v mod 2 ^ nat w) = take_bit (nat w) v"
    by (simp add: take_bit_eq_mod)
  ultimately show ?thesis using assms by (simp add: unsigned_to_bytes_eq)
qed

lemma add_aligned_unsigned_mod:
  assumes "0 \<le> v" "1 \<le> w"
  shows "add_aligned_unsigned v w s = add_aligned_unsigned (v mod 2 ^ nat w) w s"
proof -
  have "0 \<le> v mod 2 ^ nat w" by simp
  with assms(1) show ?thesis
    by (simp add: add_aligned_unsigned_def unsigned_to_bytes_mod [OF assms])
qed

lemma add_unaligned_unsigned_mod:
  assumes "0 \<le> v" "1 \<le> w"
  shows "add_unaligned_unsigned v w s = add_unaligned_unsigned (v mod 2 ^ nat w) w s"
proof -
  have "0 \<le> v mod 2 ^ nat w" by simp
  with assms(1) show ?thesis
    by (simp add: add_unaligned_unsigned_def unsigned_to_bytes_mod [OF assms])
qed

lemma truncating_roundtrip:
  assumes "0 \<le> v" "1 \<le> w" "0 \<le> k" "(k + w + 7) div 8 \<le> n"
  shows "\<exists>data. serialize_at n k (add_unaligned_unsigned v w) = Inr data \<and>
                deserialize_at data k (fetch_unaligned_unsigned w) = Inr (v mod 2 ^ nat w)"
proof -
  from serialize_at_unsigned [OF assms(3,2,1,4)]
  obtain data where d: "serialize_at n k (add_unaligned_unsigned v w) = Inr data"
    "bytes_value data = push_bit (nat k) (take_bit (nat w) v)"
    "int (length data) = (k + w + 7) div 8" by blast
  have fit: "k div 8 + (w + 7) div 8 \<le> int (length data)"
    unfolding d(3) using assms(3) by (rule floor_ceil8)
  have "deserialize_at data k (fetch_unaligned_unsigned w) = Inr (v mod 2 ^ nat w)"
    using assms(2,3) fit
    by (simp add: deserialize_at_unsigned d(2) drop_bit_push_bit take_bit_eq_mod)
  with d(1) show ?thesis by blast
qed

text \<open>
  Claim C5. For every value \<open>v \<ge> 0\<close> and every width \<open>w \<ge> 1\<close>, the unsigned writers that
  take a width discard the bits of \<open>v\<close> above the width: the bytes to write are
  \<open>(w + 7) div 8\<close> bytes whose little-endian value is \<open>v mod 2^w\<close>;
  \<^verbatim>\<open>add_aligned_unsigned\<close> and \<^verbatim>\<open>add_unaligned_unsigned\<close> do on every serializer exactly what
  they do for \<open>v mod 2^w\<close>; and a value written at any offset reads back as \<open>v mod 2^w\<close>.
  In particular \<^verbatim>\<open>add_aligned_unsigned(0xBEDA, 12)\<close> writes the bytes \<open>DA 0E\<close>, the low twelve
  bits \<open>0xEDA\<close>: the high nibble \<open>B\<close> is lost.
\<close>

theorem unsigned_truncation:
  assumes "0 \<le> v" "1 \<le> w"
  shows
   "(\<exists>bs. unsigned_to_bytes v w = Inr bs \<and> length bs = nat ((w + 7) div 8) \<and>
          bytes_value bs = v mod 2 ^ nat w) \<and>
    add_aligned_unsigned v w s = add_aligned_unsigned (v mod 2 ^ nat w) w s \<and>
    add_unaligned_unsigned v w s = add_unaligned_unsigned (v mod 2 ^ nat w) w s \<and>
    (0 \<le> k \<and> (k + w + 7) div 8 \<le> n \<longrightarrow>
       (\<exists>data. serialize_at n k (add_unaligned_unsigned v w) = Inr data \<and>
               deserialize_at data k (fetch_unaligned_unsigned w) = Inr (v mod 2 ^ nat w))) \<and>
    unsigned_to_bytes 0xBEDA 12 = Inr [0xDA, 0x0E] \<and>
    add_aligned_unsigned 0xBEDA 12 \<lparr>ser_buf = replicate 3 0, ser_bit_offset = 0\<rparr>
      = (Inr (), \<lparr>ser_buf = [0xDA, 0x0E, 0x00], ser_bit_offset = 12\<rparr>)"
proof (intro conjI impI)
  show "\<exists>bs. unsigned_to_bytes v w = Inr bs \<and> length bs = nat ((w + 7) div 8) \<and>
          bytes_value bs = v mod 2 ^ nat w"
    using unsigned_to_bytes_value [OF assms(2,1)] by (simp add: take_bit_eq_mod)
  show "add_aligned_unsigned v w s = add_aligned_unsigned (v mod 2 ^ nat w) w s"
    using assms by (rule add_aligned_unsigned_mod)
  show "add_unaligned_unsigned v w s = add_unaligned_unsigned (v mod 2 ^ nat w) w s"
    using assms by (rule add_unaligned_unsigned_mod)
  show "unsigned_to_bytes 0xBEDA 12 = Inr [0xDA, 0x0E]"
    by code_simp
  show "add_aligned_unsigned 0xBEDA 12 \<lparr>ser_buf = replicate 3 0, ser_bit_offset = 0\<rparr>
      = (Inr (), \<lparr>ser_buf = [0xDA, 0x0E, 0x00], ser_bit_offset = 12\<rparr>)"
    by code_simp
next
  assume "0 \<le> k \<and> (k + w + 7) div 8 \<le> n"
  then show "\<exists>data. serialize_at n k (add_unaligned_unsigned v w) = Inr data \<and>
               deserialize_at data k (fetch_unaligned_unsigned w) = Inr (v mod 2 ^ nat w)"
    using truncating_roundtrip [OF assms, of k n] by blast
qed

theorem unsigned_truncation_witness:
  "(\<exists>bs. unsigned_to_bytes 0xBEDA 12 = Inr bs \<and> length bs = 2 \<and> bytes_value bs = 0xEDA) \<and>
   add_aligned_unsigned 0xBEDA 12 \<lparr>ser_buf = replicate 3 0, ser_bit_offset = 0\<rparr>
     = add_aligned_unsigned 0xEDA 12 \<lparr>ser_buf = replicate 3 0, ser_bit_offset = 0\<rparr> \<and>
   (\<exists>data. serialize_at 2 4 (add_unaligned_unsigned 0xBEDA 12) = Inr data \<and>
           deserialize_at data 4 (fetch_unaligned_unsigned 12) = Inr 0xEDA)"
  using unsigned_truncation [where v = "0xBEDA" and w = 12 and k = 4 and n = 2
      and s = "\<lparr>ser_buf = replicate 3 0, ser_bit_offset = 0\<rparr>"]
  by (simp add: bytes_value_def)

section \<open>Unaligned byte writes are shifted aligned writes\<close>

lemma bit_bits_value: "bit (bits_value ds) n \<longleftrightarrow> n < length ds \<and> ds ! n"
  by (simp add: bits_value_def bit_horner_sum_bit_iff)

lemma eq8_split:
  assumes "8 * q + t = 8 * i + (k::nat)" "t < 8" "k < 8"
  shows "q = i \<and> t = k"
proof -
  have "(8 * q + t) div 8 = q" using assms(2) by simp
  moreover have "(8 * i + k) div 8 = i" using assms(3) by simp
  ultimately have "q = i" using assms(1) by simp
  with assms(1) show ?thesis by simp
qed

lemma bits_value_Cons: "bits_value (x # ds) = of_bool x OR push_bit (Suc 0) (bits_value ds)"
proof (rule bit_eqI)
  fix n
  show "bit (bits_value (x # ds)) n = bit (of_bool x OR push_bit (Suc 0) (bits_value ds)) n"
    unfolding bit_or_iff bit_push_bit_iff_int bit_bits_value bit_of_bool_iff
    by (cases n) auto
qed

lemma take_bit_bits_value: "take_bit (length ds) (bits_value ds) = bits_value ds"
  by (rule bit_eqI) (auto simp: bit_simps bit_bits_value)

lemma bit_store_value:
  assumes k: "k \<le> 7" and i: "i < length xs"
  shows "bytes_value (xs[i := xs ! i OR push_bit k (if x then 1 else 0)])
         = bytes_value xs OR push_bit (8 * i + k) (of_bool x)"
proof (rule bit_eqI)
  fix n
  obtain q t :: nat where n: "n = 8 * q + t" "t < 8" "n div 8 = q" "n mod 8 = t"
    by (rule split8 [of n])
  have one: "(if x then 1 else 0 :: byte) = of_bool x" by simp
  have L: "bit (bytes_value (xs[i := xs ! i OR push_bit k (of_bool x)])) n
           \<longleftrightarrow> q < length xs \<and>
               (if q = i then bit (xs ! i) t \<or> (t = k \<and> x) else bit (xs ! q) t)"
    unfolding bit_bytes_value_update n(3,4) using n(2) k
    by (auto simp: bit_simps bit_of_bool_iff)
  have R: "bit (bytes_value xs OR push_bit (8 * i + k) (of_bool x)) n
           \<longleftrightarrow> (q < length xs \<and> bit (xs ! q) t) \<or> (n = 8 * i + k \<and> x)"
    by (auto simp: bit_simps bit_of_bool_iff bit_bytes_value n(3,4))
  have "n = 8 * i + k \<longleftrightarrow> q = i \<and> t = k"
    using n(1,2) k eq8_split [of q t i k] by auto
  then show "bit (bytes_value (xs[i := xs ! i OR push_bit k (if x then 1 else 0)])) n
             = bit (bytes_value xs OR push_bit (8 * i + k) (of_bool x)) n"
    unfolding one L R using i by auto
qed

lemma add_unaligned_bit_eq:
  assumes "0 \<le> ser_bit_offset s" "nat (ser_bit_offset s div 8) < length (ser_buf s)"
  shows "\<exists>buf'. add_unaligned_bit x s
                  = (Inr (), s\<lparr>ser_buf := buf', ser_bit_offset := ser_bit_offset s + 1\<rparr>) \<and>
               length buf' = length (ser_buf s) \<and>
               bytes_value buf' = bytes_value (ser_buf s)
                                    OR push_bit (nat (ser_bit_offset s)) (of_bool x)"
proof -
  define p where "p = ser_bit_offset s"
  define i where "i = nat (p div 8)"
  define k where "k = nat (p mod 8)"
  define xs where "xs = ser_buf s"
  have "0 \<le> p mod 8" "p mod 8 < 8" by simp_all
  then have k: "p mod 8 = int k" "k \<le> 7" by (simp_all add: k_def)
  note sp = offset_split [OF assms(1) [folded p_def] k(1)]
  have np: "nat p = 8 * i + k" using sp(2) by (simp add: i_def)
  have i: "i < length xs" using assms(2) by (simp add: i_def p_def xs_def)
  define v where "v = xs ! i OR push_bit k (if x then 1 else 0)"
  have bo: "ser_byte_offset s = int i"
    using sp(1) by (simp add: ser_byte_offset_def i_def p_def [symmetric])
  have ix: "np_index xs (int i) = Inr i" using i by (simp add: np_index_def)
  have ld: "ser_load (ser_byte_offset s) s = (Inr (xs ! i), s)"
    by (simp add: ser_load_def bo xs_def [symmetric] ix)
  have st: "ser_store (ser_byte_offset s) v s = (Inr (), s\<lparr>ser_buf := xs[i := v]\<rparr>)"
    by (simp add: ser_store_def bo xs_def [symmetric] ix)
  have run: "add_unaligned_bit x s
             = (Inr (), s\<lparr>ser_buf := xs[i := v], ser_bit_offset := ser_bit_offset s + 1\<rparr>)"
    unfolding add_unaligned_bit_def
    by (simp add: py_bind_def py_then_def ld p_def [symmetric] k_def [symmetric] v_def [symmetric] st
        ser_advance_def)
  have val: "bytes_value (xs[i := v]) = bytes_value xs OR push_bit (8 * i + k) (of_bool x)"
    unfolding v_def using k(2) i by (rule bit_store_value)
  show ?thesis
    using run val by (intro exI [of _ "xs[i := v]"]) (simp add: xs_def p_def [symmetric] np)
qed

lemma add_unaligned_bits_eq:
  assumes "0 \<le> ser_bit_offset s"
    "nat ((ser_bit_offset s + int (length ds)) div 8) < length (ser_buf s)"
  shows "\<exists>buf'. add_unaligned_bits ds s
                  = (Inr (), s\<lparr>ser_buf := buf',
                                ser_bit_offset := ser_bit_offset s + int (length ds)\<rparr>) \<and>
               length buf' = length (ser_buf s) \<and>
               bytes_value buf' = bytes_value (ser_buf s)
                                    OR push_bit (nat (ser_bit_offset s)) (bits_value ds)"
  using assms
proof (induction ds arbitrary: s)
  case Nil
  show ?case by (intro exI [of _ "ser_buf s"]) (simp add: py_return_def bits_value_def)
next
  case (Cons x ds)
  define p where "p = ser_bit_offset s"
  have mono: "p div 8 \<le> (p + int (length (x # ds))) div 8"
    by (intro zdiv_mono1) simp_all
  have "0 \<le> p div 8" using Cons.prems(1) by (simp add: p_def pos_imp_zdiv_nonneg_iff)
  with mono Cons.prems(2) have room1: "nat (ser_bit_offset s div 8) < length (ser_buf s)"
    unfolding p_def [symmetric] by linarith
  from add_unaligned_bit_eq [OF Cons.prems(1) room1, of x]
  obtain buf1 where b1: "add_unaligned_bit x s
                  = (Inr (), s\<lparr>ser_buf := buf1, ser_bit_offset := p + 1\<rparr>)"
    "length buf1 = length (ser_buf s)"
    "bytes_value buf1 = bytes_value (ser_buf s) OR push_bit (nat p) (of_bool x)"
    unfolding p_def by blast
  define s1 where "s1 = s\<lparr>ser_buf := buf1, ser_bit_offset := p + 1\<rparr>"
  have pre1: "0 \<le> ser_bit_offset s1" using Cons.prems(1) by (simp add: s1_def p_def)
  have pre2: "nat ((ser_bit_offset s1 + int (length ds)) div 8) < length (ser_buf s1)"
    using Cons.prems(2) by (simp add: s1_def b1(2) p_def add.commute add.left_commute)
  from Cons.IH [OF pre1 pre2]
  obtain buf' where IH: "add_unaligned_bits ds s1
                  = (Inr (), s1\<lparr>ser_buf := buf',
                                 ser_bit_offset := ser_bit_offset s1 + int (length ds)\<rparr>)"
    "length buf' = length (ser_buf s1)"
    "bytes_value buf' = bytes_value (ser_buf s1)
                          OR push_bit (nat (ser_bit_offset s1)) (bits_value ds)"
    by blast
  have run: "add_unaligned_bits (x # ds) s
             = (Inr (), s\<lparr>ser_buf := buf',
                            ser_bit_offset := ser_bit_offset s + int (length (x # ds))\<rparr>)"
    by (simp add: py_then_def py_bind_def b1(1) s1_def [symmetric] IH(1))
       (simp add: s1_def p_def)
  have np1: "nat (p + 1) = nat p + 1" using Cons.prems(1) by (simp add: p_def nat_add_distrib)
  have "bytes_value buf' = (bytes_value (ser_buf s) OR push_bit (nat p) (of_bool x))
                             OR push_bit (nat p + 1) (bits_value ds)"
    using IH(3) by (simp add: s1_def b1(3) np1)
  also have "\<dots> = bytes_value (ser_buf s) OR push_bit (nat p) (bits_value (x # ds))"
    by (simp add: bits_value_Cons push_bit_or push_bit_push_bit or.assoc add.commute
        del: push_bit_Suc)
  finally have val: "bytes_value buf' = bytes_value (ser_buf s)
                       OR push_bit (nat (ser_bit_offset s)) (bits_value (x # ds))"
    by (simp add: p_def)
  show ?case
    using run IH(2) val by (intro exI [of _ buf']) (simp add: s1_def b1(2))
qed

lemma add_aligned_bytes_at_start:
  assumes "length B \<le> length xs"
  shows "add_aligned_bytes B \<lparr>ser_buf = xs, ser_bit_offset = 0\<rparr>
         = (Inr (), \<lparr>ser_buf = B @ drop (length B) xs, ser_bit_offset = 8 * int (length B)\<rparr>)"
proof -
  have "np_set_slice xs 0 (int (length B)) B = Inr (B @ drop (length B) xs)"
    using assms by (simp add: np_set_slice_def py_clip_def Let_def min_def)
  then show ?thesis
    by (simp add: add_aligned_bytes_def ser_aligned_def py_then_def py_bind_def py_assert_def
        ser_store_slice_def ser_byte_offset_def ser_advance_def)
qed

lemma buffer_after_aligned_bytes:
  "buffer \<lparr>ser_buf = B @ ys, ser_bit_offset = 8 * int (length B)\<rparr> = B"
proof -
  have "(8 * int (length B) + 7) div 8 = int (length B)" by simp
  then show ?thesis by (simp add: buffer_def py_slice_to_take)
qed

text \<open>
  Claim C8. For every byte sequence \<open>B\<close> and every prefix \<open>ds\<close> of \<open>k \<le> 7\<close> dummy bits, on
  a new serializer that has room for \<open>B\<close>: writing the dummy bits and then
  \<^verbatim>\<open>add_unaligned_bytes(B)\<close> succeeds and leaves the cursor at \<open>k + 8 * length B\<close>; the
  aligned write \<^verbatim>\<open>add_aligned_bytes(B)\<close> at offset 0 produces the buffer \<open>B\<close>; and the bit
  content of the unaligned result is the aligned result shifted left by \<open>k\<close> bits, under the
  dummy bits: bit \<open>i < k\<close> is \<open>ds ! i\<close> and bit \<open>k + i\<close> is bit \<open>i\<close> of \<open>B\<close>.
\<close>

theorem unaligned_bytes_shifted:
  assumes "length ds \<le> 7" "int (length B) \<le> n"
  shows "\<exists>s0 sU sA.
           Serializer_new n = Inr s0 \<and>
           py_then (add_unaligned_bits ds) (add_unaligned_bytes B) s0 = (Inr (), sU) \<and>
           add_aligned_bytes B s0 = (Inr (), sA) \<and>
           ser_bit_offset sA = 8 * int (length B) \<and> buffer sA = B \<and>
           ser_bit_offset sU = int (length ds) + 8 * int (length B) \<and>
           bytes_value (buffer sU)
             = bits_value ds OR push_bit (length ds) (bytes_value (buffer sA)) \<and>
           (\<forall>i < length ds. bit (bytes_value (buffer sU)) i = ds ! i) \<and>
           (\<forall>i < 8 * length B. bit (bytes_value (buffer sU)) (length ds + i)
                                 = bit (bytes_value (buffer sA)) i)"
proof -
  define k where "k = length ds"
  define s0 where "s0 = \<lparr>ser_buf = replicate (nat n + 1) (0 :: byte), ser_bit_offset = 0\<rparr>"
  have n: "0 \<le> n" using assms(2) by linarith
  have new: "Serializer_new n = Inr s0" using n by (simp add: Serializer_new_ok s0_def)
  \<comment> \<open>the aligned write at offset 0\<close>
  have lenB: "length B \<le> length (replicate (nat n + 1) (0 :: byte))" using assms(2) by simp
  define sA where "sA = \<lparr>ser_buf = B @ drop (length B) (replicate (nat n + 1) (0 :: byte)),
                          ser_bit_offset = 8 * int (length B)\<rparr>"
  have al: "add_aligned_bytes B s0 = (Inr (), sA)"
    unfolding s0_def sA_def using lenB by (rule add_aligned_bytes_at_start)
  have bA: "buffer sA = B" unfolding sA_def by (rule buffer_after_aligned_bytes)
  \<comment> \<open>the dummy bits\<close>
  have pre0: "0 \<le> ser_bit_offset s0" by (simp add: s0_def)
  have "(int (length ds)) div 8 = 0" using assms(1) by simp
  then have room0: "nat ((ser_bit_offset s0 + int (length ds)) div 8) < length (ser_buf s0)"
    by (simp add: s0_def)
  from add_unaligned_bits_eq [OF pre0 room0]
  obtain buf1 where b1: "add_unaligned_bits ds s0
                  = (Inr (), s0\<lparr>ser_buf := buf1, ser_bit_offset := int k\<rparr>)"
    "length buf1 = nat n + 1" "bytes_value buf1 = bits_value ds"
    by (auto simp: s0_def k_def)
  define s1 where "s1 = s0\<lparr>ser_buf := buf1, ser_bit_offset := int k\<rparr>"
  \<comment> \<open>the unaligned write\<close>
  have tz1: "drop_bit (0 + k) (0 OR push_bit 0 (bits_value ds)) = 0"
    unfolding k_def by (rule tail_zero_or) (simp_all add: take_bit_bits_value)
  have pre1: "0 \<le> ser_bit_offset s1"
    "drop_bit (nat (ser_bit_offset s1)) (bytes_value (ser_buf s1)) = 0"
    using tz1 by (simp_all add: s1_def b1(3))
  have "int k div 8 = 0" using assms(1) by (simp add: k_def)
  moreover have "length B \<le> nat n" using assms(2) by linarith
  ultimately have room1:
    "B \<noteq> [] \<longrightarrow> nat (ser_bit_offset s1 div 8) + length B < length (ser_buf s1)"
    by (simp add: s1_def b1(2))
  from add_unaligned_bytes_eq [OF pre1 room1]
  obtain buf2 where b2: "add_unaligned_bytes B s1
                  = (Inr (), s1\<lparr>ser_buf := buf2, ser_bit_offset := int k + 8 * int (length B)\<rparr>)"
    "bytes_value buf2 = bits_value ds OR push_bit k (bytes_value B)"
    by (auto simp: s1_def b1(3))
  define sU where "sU = s1\<lparr>ser_buf := buf2, ser_bit_offset := int k + 8 * int (length B)\<rparr>"
  have run: "py_then (add_unaligned_bits ds) (add_unaligned_bytes B) s0 = (Inr (), sU)"
    by (simp add: py_then_def py_bind_def b1(1) s1_def [symmetric] b2(1) sU_def)
  have tz2: "drop_bit (k + 8 * length B) (bits_value ds OR push_bit k (bytes_value B)) = 0"
    using tz1 by (intro tail_zero_or) (simp_all add: take_bit_bytes_value)
  have nk: "nat (int k + 8 * int (length B)) = k + 8 * length B"
    by (simp add: nat_add_distrib nat_mult_distrib)
  have "bytes_value (buffer sU) = bytes_value (ser_buf sU)"
    using tz2 by (intro buffer_value) (simp_all add: sU_def b2(2) nk)
  then have val: "bytes_value (buffer sU) = bits_value ds OR push_bit k (bytes_value B)"
    by (simp add: sU_def b2(2))
  have low: "bit (bytes_value (buffer sU)) i = ds ! i" if "i < length ds" for i
    using that unfolding val by (simp add: bit_simps bit_bits_value k_def)
  have high: "bit (bytes_value (buffer sU)) (length ds + i) = bit (bytes_value (buffer sA)) i" for i
    unfolding val bA by (simp add: bit_simps bit_bits_value k_def)
  show ?thesis
    using new run al bA val low high
    by (intro exI [of _ s0] exI [of _ sU] exI [of _ sA])
       (simp add: sA_def sU_def k_def)
qed

theorem unaligned_bytes_shifted_witness:
  "\<exists>s0 sU sA.
     Serializer_new 4 = Inr s0 \<and>
     py_then (add_unaligned_bits [True, False, True]) (add_unaligned_bytes [0x12, 0x34, 0x56]) s0
       = (Inr (), sU) \<and>
     add_aligned_bytes [0x12, 0x34, 0x56] s0 = (Inr (), sA) \<and>
     buffer sA = [0x12, 0x34, 0x56] \<and> ser_bit_offset sU = 27 \<and>
     bytes_value (buffer sU) = 0x2B1A095"
  using unaligned_bytes_shifted [of "[True, False, True]" "[0x12, 0x34, 0x56]" 4]
  by (auto simp: bits_value_def bytes_value_def push_bit_eq_mult)

section \<open>The unit tests, evaluated\<close>

lemma unittest_serializer_aligned_passes:
  "(case Serializer_new 50 of
      Inr ser \<Rightarrow> (case unittest_serializer_aligned ser of
                    (r, ser') \<Rightarrow> (r, buffer ser', current_bit_length ser')))
   = (Inr (),
      [0xA7, 0xEF, 0xCD, 0xAB, 0x90, 0x78, 0x56, 0x34, 0x12, 0x88, 0xA9, 0xCB, 0xED, 0xFE, 0xFF,
       0x00, 0x7F, 0xDA, 0x0E, 0xDA, 0xBE, 0xFE, 0x01, 0xC5, 0x67, 0xC5, 0x0B],
      213)"
  by code_simp

lemma unittest_serializer_unaligned_passes:
  "(case Serializer_new 40 of
      Inr ser \<Rightarrow> (case unittest_serializer_unaligned ser of
                    (r, ser') \<Rightarrow> (r, buffer ser', current_bit_length ser')))
   = (Inr (),
      [0xC5, 0x2F, 0x57, 0x82, 0xC6, 0xCA, 0x12, 0x34, 0x56, 0xD9, 0xBF, 0xEC, 0x06],
      99)"
  by code_simp

lemma unittest_deserializer_unaligned_passes:
  "(case Deserializer_new
           [[0xC5, 0x2F, 0x57, 0x82, 0xC6, 0xCA, 0x12, 0x34, 0x56, 0xD9, 0xBF, 0xEC, 0x06, 0x00,
             0x00, 0x00, 0x00, 0x00, 0x80, 0xFF, 0x01, 0x00, 0x00, 0xFC, 0x01, 0xE0, 0x6F, 0xF5,
             0x7E, 0xF7, 0x05]] of
      Inr des \<Rightarrow> fst (unittest_deserializer_unaligned des))
   = Inr ([True, False, True, False, False, False, True, True, True, True, True],
          [True, False, True, False, False, True, True, True, False, True],
          [0x12, 0x34, 0x56], [False, True, True], [0x12, 0x34, 0x56],
          [True, False, False, True, True], - 2, 0b11101100101, 0b110)"
  by code_simp

lemma unittest_deserializer_zero_extension_passes:
  "(case Deserializer_new [[1, 2, 3]] of
      Inr des \<Rightarrow> fst (unittest_deserializer_zero_extension des))
   = Inr (replicate 100 False, - 100, replicate 10 0, - 248, 0, - 312)"
  by code_simp

end
